theory Spec2Isabelle
  imports Main
begin

section \<open>The Wikipedia game bot: link fetching and the exploration loop\<close>

text \<open>
  The development embeds \<^verbatim>\<open>src/main.py\<close>: \<^verbatim>\<open>get_links_from_page\<close> (cache, pagination,
  retry on HTTP 429, removal of namespace links), \<^verbatim>\<open>generate_response\<close> and
  \<^verbatim>\<open>choose_next_link\<close> (the call to Gemini) and \<^verbatim>\<open>explore_path\<close> (the loop).

  A Python \<^verbatim>\<open>str\<close> is a \<^typ>\<open>string\<close> holding its UTF-8 bytes. Equality, list membership,
  \<^verbatim>\<open>startswith\<close> and the replacement of one ASCII character by another give the same
  answers on the bytes as on the code points. \<^verbatim>\<open>str.strip\<close> and \<^verbatim>\<open>str.lower\<close> depend
  on the Unicode character database of the interpreter, which is not part of the
  repository: they are fields of the environment below.
\<close>

subsection \<open>The outside world\<close>

type_synonym params = "(string \<times> string) list"

text \<open>
  The JSON document of a successful answer, as far as lines 68 to 77 read it: the values
  of \<^verbatim>\<open>query.pages\<close> in document order, each with the titles of its \<^verbatim>\<open>links\<close>
  records when it has that key, and the value of the key \<^verbatim>\<open>continue\<close> when present.
\<close>

record data =
  pages :: "string list option list"
  continue :: "params option"

text \<open>
  What \<^verbatim>\<open>session.get\<close> gives: no response at all (the client raises), or a response with
  its status and its body; the body is \<open>None\<close> when \<^verbatim>\<open>response.json()\<close> raises.
\<close>

datatype http_result = ConnectionFailed | Response nat "data option"

text \<open>
  What the Gemini client gives: \<^verbatim>\<open>generate_content_async\<close> raises, or it returns a response
  whose \<^verbatim>\<open>text\<close> property raises (no candidate), or a response with a text.
\<close>

datatype gemini_result = ApiFailed | NoText | Text string

text \<open>
  The environment of a run. The world \<open>'w\<close> is whatever state the server and the
  model have; each call returns the next world. \<open>set_slot\<close> gives, for a Python set built
  by the insertions \<open>xs\<close> (in order, without repetitions), the slot of each element in the
  hash table: \<^verbatim>\<open>list(links)\<close> enumerates the set by increasing slot, and the hashes of
  strings change from one process to the next.
\<close>

record 'w env =
  http_get :: "params \<Rightarrow> 'w \<Rightarrow> http_result \<times> 'w"
  generate_content :: "string \<Rightarrow> 'w \<Rightarrow> gemini_result \<times> 'w"
  str_strip :: "string \<Rightarrow> string"
  str_lower :: "string \<Rightarrow> string"
  set_slot :: "string list \<Rightarrow> string \<Rightarrow> nat"

subsection \<open>Errors, diagnostics and the trace of a run\<close>

datatype error =
    ClientError
  | HTTPStatusError nat
  | JSONDecodeError
  | MaxRetriesExceeded
  | ValueError
  | IndexError
  | GeminiError

text \<open>One constructor for each \<^verbatim>\<open>print\<close> of the source, with the values it formats.\<close>

datatype diag =
    Received429 string nat
  | ErrorDecodingJSON string
  | PromptingGemini string
  | GeminiResponse string
  | TargetReached
  | IterationStart nat string
  | NoLinks string
  | NotInLinks string
  | Defaulting string
  | MovingTo string
  | MaxIterations

datatype event =
    HttpGet params
  | AsyncSleep nat
  | TimeSleep nat
  | GeminiCall string
  | Print diag

record 'w io =
  world :: 'w
  trace :: "event list"

definition emit :: "event list \<Rightarrow> 'w io \<Rightarrow> 'w io" where
  "emit es s = s\<lparr>trace := trace s @ es\<rparr>"

subsection \<open>\<^verbatim>\<open>get_links_from_page\<close>\<close>

definition MAX_RETRIES :: nat where
  "MAX_RETRIES = 5"

definition initial_params :: "string \<Rightarrow> params" where
  "initial_params page_title =
     [(''action'', ''query''), (''format'', ''json''), (''titles'', page_title),
      (''prop'', ''links''), (''pllimit'', ''max'')]"

fun dict_setitem :: "string \<Rightarrow> string \<Rightarrow> params \<Rightarrow> params" where
  "dict_setitem k v [] = [(k, v)]"
| "dict_setitem k v (p # ps) = (if fst p = k then (k, v) # ps else p # dict_setitem k v ps)"

definition dict_update :: "params \<Rightarrow> params \<Rightarrow> params" where
  "dict_update ps other = fold (\<lambda>(k, v). dict_setitem k v) other ps"

text \<open>
  Lines 46 to 66, one HTTP exchange: the request is repeated while the answer is 429 and
  fewer than \<open>MAX_RETRIES\<close> such answers were seen. \<^verbatim>\<open>raise_for_status\<close> raises for a
  status of 400 or more; a status below 400 other than 200 goes on to \<^verbatim>\<open>response.json()\<close>.
  The semaphore has five permits and the run is the only task, so entering
  \<^verbatim>\<open>async with semaphore\<close> never waits; it leaves no mark in the model.
\<close>

function exchange ::
  "'w env \<Rightarrow> string \<Rightarrow> params \<Rightarrow> nat \<Rightarrow> 'w io \<Rightarrow> (error + data) \<times> 'w io" where
  "exchange env page_title ps retry_count s =
     (if retry_count < MAX_RETRIES then
        (case http_get env ps (world s) of (response, w) \<Rightarrow>
           (let s1 = emit [HttpGet ps] (s\<lparr>world := w\<rparr>) in
            case response of
              ConnectionFailed \<Rightarrow> (Inl ClientError, s1)
            | Response status body \<Rightarrow>
                if status = 429 then
                  exchange env page_title ps (retry_count + 1)
                    (emit [Print (Received429 page_title (2 ^ (retry_count + 1))),
                           AsyncSleep (2 ^ (retry_count + 1))] s1)
                else if status \<noteq> 200 \<and> 400 \<le> status then (Inl (HTTPStatusError status), s1)
                else
                  (case body of
                     None \<Rightarrow> (Inl JSONDecodeError, emit [Print (ErrorDecodingJSON page_title)] s1)
                   | Some d \<Rightarrow> (Inr d, s1))))
      else (Inl MaxRetriesExceeded, s))"
  by pat_completeness auto
termination
  by (relation "measure (\<lambda>(env, page_title, ps, retry_count, s). MAX_RETRIES - retry_count)")
     auto

text \<open>The set \<^verbatim>\<open>links\<close>, kept as the list of its elements in the order of their insertion.\<close>

definition set_add :: "string \<Rightarrow> string list \<Rightarrow> string list" where
  "set_add x xs = (if x \<in> set xs then xs else xs @ [x])"

definition add_page_links :: "string list option list \<Rightarrow> string list \<Rightarrow> string list" where
  "add_page_links pgs links =
     fold (\<lambda>page_data acc. case page_data of None \<Rightarrow> acc | Some titles \<Rightarrow> fold set_add titles acc)
       pgs links"

text \<open>
  Lines 45 to 77, the pagination loop: it runs for as long as the server sends a
  \<^verbatim>\<open>continue\<close> key, so it need not return; \<open>None\<close> is the run that never returns.
\<close>

partial_function (option) fetch_pages ::
  "'w env \<Rightarrow> string \<Rightarrow> params \<Rightarrow> string list \<Rightarrow> 'w io \<Rightarrow> ((error + string list) \<times> 'w io) option"
where
  "fetch_pages env page_title ps links s =
     (case exchange env page_title ps 0 s of
        (Inl e, s1) \<Rightarrow> Some (Inl e, s1)
      | (Inr d, s1) \<Rightarrow>
          (case continue d of
             Some c \<Rightarrow>
               fetch_pages env page_title (dict_update ps c) (add_page_links (pages d) links) s1
           | None \<Rightarrow> Some (Inr (add_page_links (pages d) links), s1)))"

declare fetch_pages.simps [code]

definition list_of_set :: "'w env \<Rightarrow> string list \<Rightarrow> string list" where
  "list_of_set env xs = sort_key (set_slot env xs) xs"

definition startswith :: "string \<Rightarrow> string \<Rightarrow> bool" where
  "startswith s p = (take (length p) s = p)"

text \<open>
  The condition of line 80. The three titles with an accent are written with the UTF-8
  bytes of U+00E9 and U+00E8.
\<close>

definition has_reserved_prefix :: "string \<Rightarrow> bool" where
  "has_reserved_prefix link =
     (startswith link ''Help:'' \<or> startswith link ''Template:'' \<or>
      startswith link ''Wikipedia:'' \<or>
      startswith link (''Cat'' @ [CHR 0xC3, CHR 0xA9] @ ''gorie:'') \<or>
      startswith link ''Category:'' \<or> startswith link ''Portail:'' \<or>
      startswith link ''Aide:'' \<or>
      startswith link (''Mod'' @ [CHR 0xC3, CHR 0xA8] @ ''le:'') \<or>
      startswith link ''Discussion:'' \<or> startswith link ''Fichier:'' \<or>
      startswith link ''File:'' \<or>
      startswith link (''Wikip'' @ [CHR 0xC3, CHR 0xA9] @ ''dia:''))"

text \<open>\<^verbatim>\<open>list.remove\<close> deletes the first occurrence and raises \<^verbatim>\<open>ValueError\<close> when there is none.\<close>

definition list_remove :: "string \<Rightarrow> string list \<Rightarrow> error + string list" where
  "list_remove x xs = (if x \<in> set xs then Inr (remove1 x xs) else Inl ValueError)"

text \<open>
  Lines 79 to 81: the loop runs over the copy \<^verbatim>\<open>links[:]\<close> (first argument) and removes from
  \<^verbatim>\<open>links\<close> itself (second argument).
\<close>

fun remove_reserved :: "string list \<Rightarrow> string list \<Rightarrow> error + string list" where
  "remove_reserved [] links = Inr links"
| "remove_reserved (link # rest) links =
     (if has_reserved_prefix link then
        (case list_remove link links of
           Inl e \<Rightarrow> Inl e
         | Inr links' \<Rightarrow> remove_reserved rest links')
      else remove_reserved rest links)"

type_synonym cache = "string \<rightharpoonup> string list"

definition get_links_from_page ::
  "'w env \<Rightarrow> string \<Rightarrow> cache \<Rightarrow> 'w io \<Rightarrow> ((error + string list) \<times> cache \<times> 'w io) option" where
  "get_links_from_page env page_title c s =
     (case c page_title of
        Some cached \<Rightarrow> Some (Inr cached, c, s)
      | None \<Rightarrow>
          (case fetch_pages env page_title (initial_params page_title) [] s of
             None \<Rightarrow> None
           | Some (Inl e, s1) \<Rightarrow> Some (Inl e, c, s1)
           | Some (Inr link_set, s1) \<Rightarrow>
               (let links = list_of_set env link_set in
                case remove_reserved links links of
                  Inl e \<Rightarrow> Some (Inl e, c, s1)
                | Inr links' \<Rightarrow> Some (Inr links', c(page_title \<mapsto> links'), s1))))"

subsection \<open>\<^verbatim>\<open>generate_response\<close> and \<^verbatim>\<open>choose_next_link\<close>\<close>

definition generate_response :: "'w env \<Rightarrow> string \<Rightarrow> 'w io \<Rightarrow> (error + string) \<times> 'w io" where
  "generate_response env user_input s =
     (case generate_content env user_input (world s) of (response, w) \<Rightarrow>
        (let s1 = emit [GeminiCall user_input] (s\<lparr>world := w\<rparr>) in
         case response of
           ApiFailed \<Rightarrow> (Inl GeminiError, s1)
         | NoText \<Rightarrow> (Inl ValueError, emit [TimeSleep 2] s1)
         | Text t \<Rightarrow> (Inr t, emit [TimeSleep 2] s1)))"

fun join :: "string \<Rightarrow> string list \<Rightarrow> string" where
  "join sep [] = []"
| "join sep [x] = x"
| "join sep (x # y # ys) = x @ sep @ join sep (y # ys)"

definition build_prompt :: "string \<Rightarrow> string \<Rightarrow> string list \<Rightarrow> string list \<Rightarrow> string" where
  "build_prompt current target visited_pages available_links =
     ''Current Wikipedia page: '' @ [CHR 0x27] @ current @ [CHR 0x27, CHR 0x0A] @
     ''Target Wikipedia page: '' @ [CHR 0x27] @ target @ [CHR 0x27, CHR 0x0A] @
     ''Visited pages so far: '' @ join '', '' visited_pages @ [CHR 0x0A] @
     ''Available links on the current page:'' @ [CHR 0x0A] @
     concat (map (\<lambda>link. ''- '' @ link @ [CHR 0x0A]) available_links) @
     [CHR 0x0A] @
     ''From the list above, please choose exactly one link (the title) that is the best next step '' @
     ''to reach the target page. Respond with only the exact title.''"

definition choose_next_link ::
  "'w env \<Rightarrow> string \<Rightarrow> string \<Rightarrow> string list \<Rightarrow> string list \<Rightarrow> 'w io \<Rightarrow> (error + string) \<times> 'w io"
where
  "choose_next_link env current target visited_pages available_links s =
     (let prompt = build_prompt current target visited_pages available_links in
      case generate_response env prompt (emit [Print (PromptingGemini prompt)] s) of
        (Inl e, s1) \<Rightarrow> (Inl e, s1)
      | (Inr answer, s1) \<Rightarrow>
          (let chosen_link = str_strip env answer in
           (Inr chosen_link, emit [Print (GeminiResponse chosen_link)] s1)))"

subsection \<open>\<^verbatim>\<open>explore_path\<close>\<close>

record 'w run =
  io :: "'w io"
  cache :: cache
  visited :: "string list"
  current_page :: string
  path :: "string list"

definition say :: "diag \<Rightarrow> 'w run \<Rightarrow> 'w run" where
  "say d r = r\<lparr>io := emit [Print d] (io r)\<rparr>"

definition replace_space :: "string \<Rightarrow> string" where
  "replace_space s = map (\<lambda>ch. if ch = CHR '' '' then CHR ''_'' else ch) s"

text \<open>Line 162: \<^verbatim>\<open>x.strip().lower().replace(" ", "_")\<close>.\<close>

definition normalize :: "'w env \<Rightarrow> string \<Rightarrow> string" where
  "normalize env x = replace_space (str_lower env (str_strip env x))"

text \<open>Lines 180 to 183.\<close>

definition advance :: "string \<Rightarrow> 'w run \<Rightarrow> 'w run" where
  "advance chosen_link r =
     say (MovingTo chosen_link)
       (r\<lparr>current_page := chosen_link,
          path := path r @ [chosen_link],
          visited := visited r @ [chosen_link]\<rparr>)"

text \<open>
  The body of the \<^verbatim>\<open>for\<close> loop, lines 162 to 183, for the loop variable \<open>iteration\<close>:
  it returns the path, raises, or goes on to the next iteration (after \<^verbatim>\<open>continue\<close> of
  line 170 or at the end of the body).
\<close>

datatype step = Return "string list" | Raise error | Continue

definition loop_body :: "'w env \<Rightarrow> string \<Rightarrow> nat \<Rightarrow> 'w run \<Rightarrow> (step \<times> 'w run) option" where
  "loop_body env target_page iteration r =
     (if normalize env (current_page r) = normalize env target_page then
        Some (Return (path r), say TargetReached r)
      else
        (let r1 = say (IterationStart (iteration + 1) (current_page r)) r in
         case get_links_from_page env (current_page r1) (cache r1) (io r1) of
           None \<Rightarrow> None
         | Some (Inl e, c, s) \<Rightarrow> Some (Raise e, r1\<lparr>io := s, cache := c\<rparr>)
         | Some (Inr available_links, c, s) \<Rightarrow>
             (let r2 = r1\<lparr>io := s, cache := c\<rparr> in
              if available_links = [] then Some (Continue, say (NoLinks (current_page r2)) r2)
              else
                (case choose_next_link env (current_page r2) target_page (visited r2)
                        available_links (io r2) of
                   (Inl e, s') \<Rightarrow> Some (Raise e, r2\<lparr>io := s'\<rparr>)
                 | (Inr chosen_link, s') \<Rightarrow>
                     (let r3 = r2\<lparr>io := s'\<rparr> in
                      if chosen_link \<notin> set available_links then
                        (let r4 = say (NotInLinks chosen_link) r3 in
                         case available_links of
                           [] \<Rightarrow> Some (Raise IndexError, r4)
                         | first # _ \<Rightarrow> Some (Continue, advance first (say (Defaulting first) r4)))
                      else Some (Continue, advance chosen_link r3))))))"

text \<open>
  The \<^verbatim>\<open>for\<close> loop over \<^verbatim>\<open>range(max_iterations)\<close>, and lines 185 and 186 when the range is
  used up.
\<close>

fun explore_loop ::
  "'w env \<Rightarrow> string \<Rightarrow> nat list \<Rightarrow> 'w run \<Rightarrow> ((error + string list) \<times> 'w run) option" where
  "explore_loop env target_page [] r = Some (Inr (path r), say MaxIterations r)"
| "explore_loop env target_page (iteration # rest) r =
     (case loop_body env target_page iteration r of
        None \<Rightarrow> None
      | Some (Return p, r') \<Rightarrow> Some (Inr p, r')
      | Some (Raise e, r') \<Rightarrow> Some (Inl e, r')
      | Some (Continue, r') \<Rightarrow> explore_loop env target_page rest r')"

definition initial_run :: "string \<Rightarrow> 'w \<Rightarrow> 'w run" where
  "initial_run start_page w =
     \<lparr>io = \<lparr>world = w, trace = []\<rparr>, cache = Map.empty, visited = [start_page],
      current_page = start_page, path = [start_page]\<rparr>"

text \<open>
  \<^verbatim>\<open>explore_path\<close>. \<^verbatim>\<open>max_iterations\<close> is a Python integer; \<^verbatim>\<open>range\<close> of a negative
  number is empty. The final state of the run is returned beside the path, so that the
  cache and the trace can be observed.
\<close>

definition explore_path ::
  "'w env \<Rightarrow> string \<Rightarrow> string \<Rightarrow> int \<Rightarrow> 'w \<Rightarrow> ((error + string list) \<times> 'w run) option" where
  "explore_path env start_page target_page max_iterations w =
     explore_loop env target_page [0..<nat max_iterations] (initial_run start_page w)"

declare exchange.simps [simp del]

subsection \<open>Notions used to state the properties\<close>

text \<open>
  \<open>throttled env ps k w = Some w'\<close>: from the world \<open>w\<close>, the server answers the next \<open>k\<close>
  requests \<open>ps\<close> with status 429, and \<open>w'\<close> is the world after them.
\<close>

fun throttled :: "'w env \<Rightarrow> params \<Rightarrow> nat \<Rightarrow> 'w \<Rightarrow> 'w option" where
  "throttled env ps 0 w = Some w"
| "throttled env ps (Suc k) w =
     (case http_get env ps w of
        (ConnectionFailed, w') \<Rightarrow> None
      | (Response status body, w') \<Rightarrow> if status = 429 then throttled env ps k w' else None)"

text \<open>
  The trace of \<open>k\<close> throttled attempts after \<open>n\<close> earlier ones: each is the request, the
  diagnostic and a sleep of \<open>2 ^ attempt\<close> seconds, the attempts numbered from \<open>n + 1\<close>.
\<close>

definition backoff :: "string \<Rightarrow> params \<Rightarrow> nat \<Rightarrow> nat \<Rightarrow> event list" where
  "backoff page_title ps n k =
     concat (map (\<lambda>attempt. [HttpGet ps, Print (Received429 page_title (2 ^ attempt)),
                              AsyncSleep (2 ^ attempt)]) [Suc n..<Suc (n + k)])"

text \<open>
  Every element of a path after the first is among the links the cache holds for the
  element before it.
\<close>

definition drawn_from_edges :: "cache \<Rightarrow> string list \<Rightarrow> bool" where
  "drawn_from_edges c p =
     (\<forall>i. Suc i < length p \<longrightarrow> (\<exists>links. c (p ! i) = Some links \<and> p ! Suc i \<in> set links))"

text \<open>The invariant of the loop of \<^verbatim>\<open>explore_path\<close>.\<close>

definition path_ok :: "'w run \<Rightarrow> bool" where
  "path_ok r = (path r \<noteq> [] \<and> last (path r) = current_page r \<and> drawn_from_edges (cache r) (path r))"

text \<open>No cached list holds a link that line 80 removes.\<close>

definition no_reserved_links :: "cache \<Rightarrow> bool" where
  "no_reserved_links c = (\<forall>n ls. c n = Some ls \<longrightarrow> (\<forall>l\<in>set ls. \<not> has_reserved_prefix l))"

text \<open>
  \<open>continues env target_page its r = Some r'\<close>: from \<open>r\<close>, every iteration of \<open>its\<close> runs
  to its end (none returns, none raises), and \<open>r'\<close> is the state after the last one.
\<close>

fun continues :: "'w env \<Rightarrow> string \<Rightarrow> nat list \<Rightarrow> 'w run \<Rightarrow> 'w run option" where
  "continues env target_page [] r = Some r"
| "continues env target_page (iteration # rest) r =
     (case loop_body env target_page iteration r of
        Some (Continue, r') \<Rightarrow> continues env target_page rest r'
      | _ \<Rightarrow> None)"

text \<open>The events of a trace that are requests to the server.\<close>

definition is_request :: "event \<Rightarrow> bool" where
  "is_request e = (case e of HttpGet ps \<Rightarrow> True | _ \<Rightarrow> False)"

subsection \<open>A scripted environment\<close>

text \<open>
  An environment to run the model on: the server and Gemini answer from two lists, the
  server refuses connections and Gemini fails once its list is used up. Its
  \<open>str_strip\<close> and \<open>str_lower\<close> are those of Python on ASCII strings without control
  characters, and its sets enumerate in the order of insertion.
\<close>

definition ascii_lower :: "string \<Rightarrow> string" where
  "ascii_lower s =
     map (\<lambda>ch. case map_of (zip ''ABCDEFGHIJKLMNOPQRSTUVWXYZ'' ''abcdefghijklmnopqrstuvwxyz'') ch of
                 None \<Rightarrow> ch | Some l \<Rightarrow> l) s"

definition ascii_space :: "char \<Rightarrow> bool" where
  "ascii_space ch = (ch \<in> set [CHR '' '', CHR 0x09, CHR 0x0A, CHR 0x0B, CHR 0x0C, CHR 0x0D])"

definition ascii_strip :: "string \<Rightarrow> string" where
  "ascii_strip s = rev (dropWhile ascii_space (rev (dropWhile ascii_space s)))"

type_synonym script = "http_result list \<times> gemini_result list"

definition script_env :: "script env" where
  "script_env =
     \<lparr>http_get = (\<lambda>ps (hs, gs). case hs of [] \<Rightarrow> (ConnectionFailed, ([], gs)) | h # hs' \<Rightarrow> (h, (hs', gs))),
      generate_content = (\<lambda>prompt (hs, gs). case gs of [] \<Rightarrow> (ApiFailed, (hs, [])) | g # gs' \<Rightarrow> (g, (hs, gs'))),
      str_strip = ascii_strip,
      str_lower = ascii_lower,
      set_slot = (\<lambda>xs x. 0)\<rparr>"

definition page :: "string list \<Rightarrow> http_result" where
  "page titles = Response 200 (Some \<lparr>pages = [Some titles], continue = None\<rparr>)"

subsection \<open>The normalization rule in the words of the specification\<close>

text \<open>
  Section 3 of the specification gives the rule as: case-folded, whitespace replaced by the
  separator. This is that rule on ASCII strings, to be compared with \<open>normalize\<close>, which is
  line 162 of the source.
\<close>

definition spec_normalize :: "string \<Rightarrow> string" where
  "spec_normalize x = map (\<lambda>ch. if ascii_space ch then CHR ''_'' else ch) (ascii_lower x)"

section \<open>Properties\<close>

subsection \<open>Removing the namespace links\<close>

lemma remove_reserved_append:
  "\<forall>x\<in>set pre. \<not> has_reserved_prefix x \<Longrightarrow>
   remove_reserved rest (pre @ rest) = Inr (pre @ filter (\<lambda>x. \<not> has_reserved_prefix x) rest)"
proof (induction rest arbitrary: pre)
  case Nil
  then show ?case by simp
next
  case (Cons link rest)
  show ?case
  proof (cases "has_reserved_prefix link")
    case True
    with Cons.prems have "link \<notin> set pre" by auto
    then have "list_remove link (pre @ link # rest) = Inr (pre @ rest)"
      by (simp add: list_remove_def remove1_append)
    with True Cons.IH [OF Cons.prems] show ?thesis by simp
  next
    case False
    with Cons.prems have "\<forall>x\<in>set (pre @ [link]). \<not> has_reserved_prefix x" by auto
    from Cons.IH [OF this] False show ?thesis by simp
  qed
qed

lemma remove_reserved_filter:
  "remove_reserved links links = Inr (filter (\<lambda>x. \<not> has_reserved_prefix x) links)"
  using remove_reserved_append [of "[]" links] by simp

lemma get_links_cached:
  "c page_title = Some links \<Longrightarrow> get_links_from_page env page_title c s = Some (Inr links, c, s)"
  by (simp add: get_links_from_page_def)

lemma get_links_fresh:
  assumes "c page_title = None"
    and "get_links_from_page env page_title c s = Some (res, c', s')"
  shows "(\<exists>e. res = Inl e \<and> c' = c) \<or>
         (\<exists>link_set s0. fetch_pages env page_title (initial_params page_title) [] s = Some (Inr link_set, s')
             \<and> res = Inr (filter (\<lambda>x. \<not> has_reserved_prefix x) (list_of_set env link_set))
             \<and> c' = c(page_title \<mapsto> filter (\<lambda>x. \<not> has_reserved_prefix x) (list_of_set env link_set)))"
  using assms
  by (auto simp: get_links_from_page_def remove_reserved_filter Let_def split: option.splits sum.splits prod.splits)

lemma get_links_keeps:
  assumes "get_links_from_page env page_title c s = Some (res, c', s')" and "c n = Some links"
  shows "c' n = Some links"
proof (cases "c page_title")
  case None
  with assms(2) have "n \<noteq> page_title" by auto
  with get_links_fresh [OF None assms(1)] assms(2) show ?thesis by auto
next
  case (Some a)
  with assms show ?thesis by (simp add: get_links_from_page_def)
qed

lemma get_links_stores:
  assumes "get_links_from_page env page_title c s = Some (Inr links, c', s')"
  shows "c' page_title = Some links"
proof (cases "c page_title")
  case None
  from get_links_fresh [OF None assms] show ?thesis by auto
next
  case (Some a)
  with assms show ?thesis by (simp add: get_links_from_page_def)
qed

subsection \<open>The loop body, case by case\<close>

lemma say_simps [simp]:
  "cache (say d r) = cache r" "path (say d r) = path r" "visited (say d r) = visited r"
  "current_page (say d r) = current_page r"
  "world (io (say d r)) = world (io r)" "trace (io (say d r)) = trace (io r) @ [Print d]"
  by (simp_all add: say_def emit_def)

lemma advance_simps [simp]:
  "cache (advance l r) = cache r" "path (advance l r) = path r @ [l]"
  "visited (advance l r) = visited r @ [l]" "current_page (advance l r) = l"
  "world (io (advance l r)) = world (io r)"
  "trace (io (advance l r)) = trace (io r) @ [Print (MovingTo l)]"
  by (simp_all add: advance_def)

lemma loop_body_cases:
  assumes "loop_body env target_page i r = Some (st, r')"
  obtains
    (reached) "normalize env (current_page r) = normalize env target_page"
      "st = Return (path r)" "r' = say TargetReached r"
  | (fetch_failed) e c s where
      "normalize env (current_page r) \<noteq> normalize env target_page"
      "get_links_from_page env (current_page r) (cache r)
         (io (say (IterationStart (i + 1) (current_page r)) r)) = Some (Inl e, c, s)"
      "st = Raise e" "r' = r\<lparr>io := s, cache := c\<rparr>"
  | (stalled) c s where
      "normalize env (current_page r) \<noteq> normalize env target_page"
      "get_links_from_page env (current_page r) (cache r)
         (io (say (IterationStart (i + 1) (current_page r)) r)) = Some (Inr [], c, s)"
      "st = Continue" "r' = say (NoLinks (current_page r)) (r\<lparr>io := s, cache := c\<rparr>)"
  | (oracle_failed) links c s e s' where
      "normalize env (current_page r) \<noteq> normalize env target_page"
      "get_links_from_page env (current_page r) (cache r)
         (io (say (IterationStart (i + 1) (current_page r)) r)) = Some (Inr links, c, s)"
      "links \<noteq> []"
      "choose_next_link env (current_page r) target_page (visited r) links s = (Inl e, s')"
      "st = Raise e" "r' = r\<lparr>io := s', cache := c\<rparr>"
  | (moved) links c s chosen s' next_page where
      "normalize env (current_page r) \<noteq> normalize env target_page"
      "get_links_from_page env (current_page r) (cache r)
         (io (say (IterationStart (i + 1) (current_page r)) r)) = Some (Inr links, c, s)"
      "links \<noteq> []"
      "choose_next_link env (current_page r) target_page (visited r) links s = (Inr chosen, s')"
      "next_page = (if chosen \<in> set links then chosen else hd links)"
      "st = Continue"
      "r' = advance next_page
              (if chosen \<in> set links then r\<lparr>io := s', cache := c\<rparr>
               else say (Defaulting (hd links)) (say (NotInLinks chosen) (r\<lparr>io := s', cache := c\<rparr>)))"
proof (cases "normalize env (current_page r) = normalize env target_page")
  case True
  with assms have "st = Return (path r)" "r' = say TargetReached r"
    by (simp_all add: loop_body_def)
  with True show ?thesis by (rule reached)
next
  case neq: False
  let ?s0 = "io (say (IterationStart (i + 1) (current_page r)) r)"
  from assms neq obtain res c s where
    g: "get_links_from_page env (current_page r) (cache r) ?s0 = Some (res, c, s)"
    by (auto simp: loop_body_def Let_def split: option.splits)
  show ?thesis
  proof (cases res)
    case (Inl e)
    with assms neq g have "st = Raise e" "r' = r\<lparr>io := s, cache := c\<rparr>"
      by (auto simp: loop_body_def Let_def say_def)
    with neq g [unfolded Inl] show ?thesis by (rule fetch_failed)
  next
    case (Inr links)
    note res = this
    show ?thesis
    proof (cases "links = []")
      case True
      with assms neq g res
      have "st = Continue" "r' = say (NoLinks (current_page r)) (r\<lparr>io := s, cache := c\<rparr>)"
        by (auto simp: loop_body_def Let_def say_def)
      with neq g [unfolded res True] show ?thesis by (rule stalled)
    next
      case ne: False
      obtain ans s' where
        ch: "choose_next_link env (current_page r) target_page (visited r) links s = (ans, s')"
        by (cases "choose_next_link env (current_page r) target_page (visited r) links s")
      show ?thesis
      proof (cases ans)
        case (Inl e)
        with assms neq g res ne ch have "st = Raise e" "r' = r\<lparr>io := s', cache := c\<rparr>"
          by (auto simp: loop_body_def Let_def say_def)
        with neq g [unfolded res] ne ch [unfolded Inl] show ?thesis by (rule oracle_failed)
      next
        case (Inr chosen)
        obtain first others where l: "links = first # others" using ne by (cases links) auto
        from assms neq g res ne ch Inr l
        have "st = Continue"
          "r' = advance (if chosen \<in> set links then chosen else hd links)
              (if chosen \<in> set links then r\<lparr>io := s', cache := c\<rparr>
               else say (Defaulting (hd links)) (say (NotInLinks chosen) (r\<lparr>io := s', cache := c\<rparr>)))"
          by (auto simp: loop_body_def Let_def say_def split: if_splits)
        with neq g [unfolded res] ne ch [unfolded Inr] refl show ?thesis by (rule moved)
      qed
    qed
  qed
qed

lemma loop_body_keeps_cache:
  assumes "loop_body env target_page i r = Some (st, r')" and "cache r n = Some links"
  shows "cache r' n = Some links"
  using assms(1)
proof (cases rule: loop_body_cases)
  case reached
  with assms(2) show ?thesis by simp
next
  case (fetch_failed e c s)
  from get_links_keeps [OF fetch_failed(2) assms(2)] fetch_failed(4) show ?thesis by simp
next
  case (stalled c s)
  from get_links_keeps [OF stalled(2) assms(2)] stalled(4) show ?thesis by simp
next
  case (oracle_failed links' c s e s')
  from get_links_keeps [OF oracle_failed(2) assms(2)] oracle_failed(6) show ?thesis by simp
next
  case (moved links' c s chosen s' next_page)
  from get_links_keeps [OF moved(2) assms(2)] moved(7) show ?thesis by simp
qed

lemma explore_loop_keeps_cache:
  "explore_loop env target_page its r = Some (out, r') \<Longrightarrow> cache r n = Some links \<Longrightarrow>
   cache r' n = Some links"
proof (induction its arbitrary: r)
  case Nil
  then show ?case by auto
next
  case (Cons i its)
  from Cons.prems(1) obtain st r1 where b: "loop_body env target_page i r = Some (st, r1)"
    by (auto split: option.splits)
  from loop_body_keeps_cache [OF b Cons.prems(2)] have k: "cache r1 n = Some links" .
  show ?case
  proof (cases st)
    case (Return p)
    with Cons.prems(1) b k show ?thesis by auto
  next
    case (Raise e)
    with Cons.prems(1) b k show ?thesis by auto
  next
    case Continue
    with Cons.prems(1) b have "explore_loop env target_page its r1 = Some (out, r')" by simp
    from Cons.IH [OF this k] show ?thesis .
  qed
qed

subsection \<open>The path is drawn from the cached links\<close>

lemma drawn_from_edges_mono:
  assumes "drawn_from_edges c p" and "\<And>n links. c n = Some links \<Longrightarrow> c' n = Some links"
  shows "drawn_from_edges c' p"
  using assms unfolding drawn_from_edges_def by blast

lemma drawn_from_edges_snoc:
  assumes "drawn_from_edges c p" and "p \<noteq> []" and "c (last p) = Some links" and "x \<in> set links"
  shows "drawn_from_edges c (p @ [x])"
  unfolding drawn_from_edges_def
proof (intro allI impI)
  fix i assume i: "Suc i < length (p @ [x])"
  show "\<exists>links. c ((p @ [x]) ! i) = Some links \<and> (p @ [x]) ! Suc i \<in> set links"
  proof (cases "Suc i < length p")
    case True
    with assms(1) show ?thesis by (auto simp: drawn_from_edges_def nth_append)
  next
    case False
    with i have e: "Suc i = length p" by simp
    then have "i = length p - 1" by simp
    then have "(p @ [x]) ! i = last p" using assms(2) by (simp add: nth_append last_conv_nth)
    moreover from e have "(p @ [x]) ! Suc i = x" by simp
    ultimately show ?thesis using assms(3,4) by simp
  qed
qed

lemma loop_body_path_ok:
  assumes "loop_body env target_page i r = Some (Continue, r')" and "path_ok r"
  shows "path_ok r'"
  using assms(1)
proof (cases rule: loop_body_cases)
  case (stalled c s)
  from get_links_keeps [OF stalled(2)] have "\<And>n links. cache r n = Some links \<Longrightarrow> c n = Some links" .
  with assms(2) stalled(4) show ?thesis
    by (auto simp: path_ok_def intro: drawn_from_edges_mono)
next
  case (moved links c s chosen s' next_page)
  from get_links_keeps [OF moved(2)] have k: "\<And>n links. cache r n = Some links \<Longrightarrow> c n = Some links" .
  from get_links_stores [OF moved(2)] have st: "c (current_page r) = Some links" .
  from moved(3,5) have mem: "next_page \<in> set links" by auto
  from assms(2) k have d: "drawn_from_edges c (path r)"
    by (auto simp: path_ok_def intro: drawn_from_edges_mono)
  from assms(2) have ne: "path r \<noteq> []" and l: "last (path r) = current_page r"
    by (auto simp: path_ok_def)
  from drawn_from_edges_snoc [OF d ne] st l mem
  have "drawn_from_edges c (path r @ [next_page])" by simp
  with moved(7) show ?thesis by (simp add: path_ok_def)
qed simp_all

lemma explore_loop_drawn:
  "explore_loop env target_page its r = Some (Inr p, r') \<Longrightarrow> path_ok r \<Longrightarrow>
   drawn_from_edges (cache r') p"
proof (induction its arbitrary: r)
  case Nil
  then show ?case by (auto simp: path_ok_def)
next
  case (Cons i its)
  from Cons.prems(1) obtain st r1 where b: "loop_body env target_page i r = Some (st, r1)"
    by (auto split: option.splits)
  show ?case
  proof (cases st)
    case (Return q)
    with Cons.prems(1) b have "q = p" "r1 = r'" by auto
    with b Return have "loop_body env target_page i r = Some (Return p, r')" by simp
    then show ?thesis using Cons.prems(2)
      by (cases rule: loop_body_cases) (auto simp: path_ok_def)
  next
    case (Raise e)
    with Cons.prems(1) b show ?thesis by auto
  next
    case Continue
    with Cons.prems(1) b have e: "explore_loop env target_page its r1 = Some (Inr p, r')" by simp
    from b Continue Cons.prems(2) have "path_ok r1" by (auto intro: loop_body_path_ok)
    from Cons.IH [OF e this] show ?thesis .
  qed
qed

lemma path_ok_initial: "path_ok (initial_run start_page w)"
  by (simp add: path_ok_def initial_run_def drawn_from_edges_def)

lemma loop_body_length:
  assumes "loop_body env target_page i r = Some (Continue, r')"
  shows "length (path r') \<le> Suc (length (path r))"
  using assms by (cases rule: loop_body_cases) auto

lemma loop_body_return:
  assumes "loop_body env target_page i r = Some (Return p, r')"
  shows "p = path r"
  using assms by (cases rule: loop_body_cases) auto

lemma explore_loop_length:
  "explore_loop env target_page its r = Some (Inr p, r') \<Longrightarrow>
   length p \<le> length (path r) + length its"
proof (induction its arbitrary: r)
  case Nil
  then show ?case by auto
next
  case (Cons i its)
  from Cons.prems(1) obtain st r1 where b: "loop_body env target_page i r = Some (st, r1)"
    by (auto split: option.splits)
  show ?case
  proof (cases st)
    case (Return q)
    with Cons.prems b loop_body_return [of env target_page i r q r1] show ?thesis by auto
  next
    case (Raise e)
    with Cons.prems b show ?thesis by auto
  next
    case Continue
    with Cons.prems b have e: "explore_loop env target_page its r1 = Some (Inr p, r')" by simp
    from Cons.IH [OF e] loop_body_length [of env target_page i r r1] b Continue
    show ?thesis by simp
  qed
qed

subsection \<open>Throttling\<close>

lemma emit_emit [simp]: "emit es (emit ds s) = emit (ds @ es) s"
  by (simp add: emit_def)

lemma emit_world [simp]: "world (emit es s) = world s" "trace (emit es s) = trace s @ es"
  by (simp_all add: emit_def)

lemma backoff_Suc:
  "backoff t ps n (Suc k) =
     [HttpGet ps, Print (Received429 t (2 ^ Suc n)), AsyncSleep (2 ^ Suc n)] @ backoff t ps (Suc n) k"
proof -
  have "[Suc n..<Suc (n + Suc k)] = Suc n # [Suc (Suc n)..<Suc (Suc n + k)]"
    by (subst upt_conv_Cons) simp_all
  then show ?thesis by (simp add: backoff_def)
qed

lemma exchange_throttled:
  "throttled env ps k (world s) = Some w' \<Longrightarrow> n + k \<le> MAX_RETRIES \<Longrightarrow>
   exchange env t ps n s = exchange env t ps (n + k) (emit (backoff t ps n k) (s\<lparr>world := w'\<rparr>))"
proof (induction k arbitrary: n s)
  case 0
  then show ?case by (auto simp: backoff_def emit_def)
next
  case (Suc k)
  from Suc.prems(1) obtain body w1 where
    h: "http_get env ps (world s) = (Response 429 body, w1)" and
    t: "throttled env ps k w1 = Some w'"
    by (auto split: prod.splits http_result.splits if_splits)
  let ?s1 = "emit [Print (Received429 t (2 ^ (n + 1))), AsyncSleep (2 ^ (n + 1))]
               (emit [HttpGet ps] (s\<lparr>world := w1\<rparr>))"
  from Suc.prems(2) have lt: "n < MAX_RETRIES" by simp
  have "exchange env t ps n s = exchange env t ps (n + 1) ?s1"
    by (subst exchange.simps) (simp add: h lt del: emit_emit)
  also have "\<dots> = exchange env t ps (n + 1 + k) (emit (backoff t ps (n + 1) k) (?s1\<lparr>world := w'\<rparr>))"
    using t Suc.prems(2) by (intro Suc.IH) simp_all
  also have "emit (backoff t ps (n + 1) k) (?s1\<lparr>world := w'\<rparr>)
             = emit (backoff t ps n (Suc k)) (s\<lparr>world := w'\<rparr>)"
    by (simp add: backoff_Suc emit_def)
  finally show ?case by simp
qed

lemma exchange_exhausted:
  "MAX_RETRIES \<le> n \<Longrightarrow> exchange env t ps n s = (Inl MaxRetriesExceeded, s)"
  by (subst exchange.simps) simp

lemma exchange_success:
  "n < MAX_RETRIES \<Longrightarrow> http_get env ps (world s) = (Response 200 (Some d), w) \<Longrightarrow>
   exchange env t ps n s = (Inr d, emit [HttpGet ps] (s\<lparr>world := w\<rparr>))"
  by (subst exchange.simps) simp

lemma max_retries:
  assumes "throttled env ps 5 (world s) = Some w'"
  shows "exchange env t ps 0 s = (Inl MaxRetriesExceeded, emit (backoff t ps 0 5) (s\<lparr>world := w'\<rparr>))"
  using exchange_throttled [OF assms, of 0 t]
  by (simp add: MAX_RETRIES_def exchange_exhausted)

lemma retry_then_success:
  assumes "k < 5" and "throttled env ps k (world s) = Some w'"
    and "http_get env ps w' = (Response 200 (Some d), w'')"
  shows "exchange env t ps 0 s = (Inr d, emit (backoff t ps 0 k @ [HttpGet ps]) (s\<lparr>world := w''\<rparr>))"
proof -
  from assms(1) have "0 + k \<le> MAX_RETRIES" "k < MAX_RETRIES" by (simp_all add: MAX_RETRIES_def)
  from exchange_throttled [OF assms(2) this(1), of t]
    exchange_success [OF this(2), of env ps "emit (backoff t ps 0 k) (s\<lparr>world := w'\<rparr>)" d w'' t] assms(3)
  show ?thesis by (simp add: emit_def)
qed

subsection \<open>Cached lists hold no removed link\<close>

lemma get_links_clean:
  assumes "no_reserved_links c" and "get_links_from_page env page_title c s = Some (res, c', s')"
  shows "no_reserved_links c' \<and> (\<forall>links. res = Inr links \<longrightarrow> (\<forall>l\<in>set links. \<not> has_reserved_prefix l))"
proof (cases "c page_title")
  case None
  from get_links_fresh [OF None assms(2)] assms(1) show ?thesis
    by (auto simp: no_reserved_links_def split: if_splits)
next
  case (Some cached)
  with assms(2) have "res = Inr cached" "c' = c" by (simp_all add: get_links_from_page_def)
  with assms(1) Some show ?thesis by (auto simp: no_reserved_links_def)
qed

lemma loop_body_clean:
  assumes "loop_body env target_page i r = Some (st, r')" and "no_reserved_links (cache r)"
  shows "no_reserved_links (cache r')"
  using assms(1)
proof (cases rule: loop_body_cases)
  case reached
  with assms(2) show ?thesis by simp
next
  case (fetch_failed e c s)
  from get_links_clean [OF assms(2) fetch_failed(2)] fetch_failed(4) show ?thesis by simp
next
  case (stalled c s)
  from get_links_clean [OF assms(2) stalled(2)] stalled(4) show ?thesis by simp
next
  case (oracle_failed links' c s e s')
  from get_links_clean [OF assms(2) oracle_failed(2)] oracle_failed(6) show ?thesis by simp
next
  case (moved links' c s chosen s' next_page)
  from get_links_clean [OF assms(2) moved(2)] moved(7) show ?thesis by simp
qed

lemma explore_loop_clean:
  "explore_loop env target_page its r = Some (out, r') \<Longrightarrow> no_reserved_links (cache r) \<Longrightarrow>
   no_reserved_links (cache r')"
proof (induction its arbitrary: r)
  case Nil
  then show ?case by auto
next
  case (Cons i its)
  from Cons.prems(1) obtain st r1 where b: "loop_body env target_page i r = Some (st, r1)"
    by (auto split: option.splits)
  from loop_body_clean [OF b Cons.prems(2)] have k: "no_reserved_links (cache r1)" .
  show ?case
  proof (cases st)
    case (Return p)
    with Cons.prems(1) b k show ?thesis by auto
  next
    case (Raise e)
    with Cons.prems(1) b k show ?thesis by auto
  next
    case Continue
    with Cons.prems(1) b have "explore_loop env target_page its r1 = Some (out, r')" by simp
    from Cons.IH [OF this k] show ?thesis .
  qed
qed

subsection \<open>Stalling and running the budget out\<close>

lemma stalled_loop:
  assumes "normalize env (current_page r) \<noteq> normalize env target_page"
    and "cache r (current_page r) = Some []"
  shows "explore_loop env target_page its r =
           Some (Inr (path r),
                 r\<lparr>io := emit (concat (map (\<lambda>i. [Print (IterationStart (i + 1) (current_page r)),
                                                  Print (NoLinks (current_page r))]) its)
                                 @ [Print MaxIterations]) (io r)\<rparr>)"
  using assms
proof (induction its arbitrary: r)
  case Nil
  then show ?case by (simp add: say_def)
next
  case (Cons i its)
  let ?r1 = "r\<lparr>io := emit [Print (IterationStart (i + 1) (current_page r)),
                            Print (NoLinks (current_page r))] (io r)\<rparr>"
  from Cons.prems
  have "loop_body env target_page i r = Some (Continue, ?r1)"
    by (simp add: loop_body_def Let_def say_def get_links_cached)
  then have "explore_loop env target_page (i # its) r = explore_loop env target_page its ?r1"
    by simp
  also from Cons.prems have "\<dots> = Some (Inr (path ?r1),
      ?r1\<lparr>io := emit (concat (map (\<lambda>i. [Print (IterationStart (i + 1) (current_page ?r1)),
                                        Print (NoLinks (current_page ?r1))]) its)
                       @ [Print MaxIterations]) (io ?r1)\<rparr>)"
    by (intro Cons.IH) simp_all
  finally show ?case by simp
qed

lemma continues_explore_loop:
  "continues env target_page its r = Some r' \<Longrightarrow>
   explore_loop env target_page its r = Some (Inr (path r'), say MaxIterations r')"
proof (induction its arbitrary: r)
  case Nil
  then show ?case by simp
next
  case (Cons i its)
  from Cons.prems obtain r1 where
    b: "loop_body env target_page i r = Some (Continue, r1)" and
    c: "continues env target_page its r1 = Some r'"
    by (auto split: option.splits prod.splits step.splits)
  from Cons.IH [OF c] b show ?case by simp
qed

lemma throttled_less:
  "throttled env ps k w = Some w' \<Longrightarrow> j \<le> k \<Longrightarrow> \<exists>w''. throttled env ps j w = Some w''"
proof (induction k arbitrary: j w)
  case 0
  then show ?case by simp
next
  case (Suc k)
  show ?case
  proof (cases j)
    case 0
    then show ?thesis by simp
  next
    case (Suc j')
    with Suc.prems Suc.IH [of _ j'] show ?thesis
      by (auto split: prod.splits http_result.splits if_splits)
  qed
qed

subsection \<open>What a fetch does to the cache, and what a cached page spares\<close>

lemma get_links_result_cache:
  assumes "get_links_from_page env n c s = Some (Inr links, c', s')"
  shows "c' = c(n \<mapsto> links)"
proof (cases "c n")
  case None
  from get_links_fresh [OF None assms] show ?thesis by auto
next
  case (Some cached)
  with assms have "links = cached" "c' = c" by (simp_all add: get_links_from_page_def)
  with Some show ?thesis by (simp add: fun_upd_idem)
qed

lemma get_links_error_cache:
  assumes "get_links_from_page env n c s = Some (Inl e, c', s')"
  shows "c' = c"
proof (cases "c n")
  case None
  from get_links_fresh [OF None assms] show ?thesis by auto
next
  case (Some cached)
  with assms show ?thesis by (simp add: get_links_from_page_def)
qed

lemma choose_next_link_no_request:
  assumes "choose_next_link env a b v l s = (res, s')"
  shows "filter is_request (trace s') = filter is_request (trace s)"
  using assms
  by (auto simp: choose_next_link_def generate_response_def Let_def is_request_def emit_def
      split: prod.splits gemini_result.splits sum.splits)

lemma loop_body_cached_no_request:
  assumes "cache r (current_page r) = Some links"
    and "loop_body env target_page i r = Some (st, r')"
  shows "cache r' = cache r \<and>
         filter is_request (trace (io r')) = filter is_request (trace (io r))"
proof -
  let ?s0 = "io (say (IterationStart (i + 1) (current_page r)) r)"
  have hit: "get_links_from_page env (current_page r) (cache r) ?s0 = Some (Inr links, cache r, ?s0)"
    using assms(1) by (rule get_links_cached)
  have t0: "filter is_request (trace ?s0) = filter is_request (trace (io r))"
    by (simp add: is_request_def)
  from assms(2) show ?thesis
  proof (cases rule: loop_body_cases)
    case reached
    then show ?thesis by (simp add: is_request_def)
  next
    case (fetch_failed e c s)
    with hit show ?thesis by simp
  next
    case (stalled c s)
    with hit have "c = cache r" "s = ?s0" by simp_all
    with stalled(4) t0 show ?thesis by (simp add: is_request_def)
  next
    case (oracle_failed links' c s e s')
    with hit have "c = cache r" "s = ?s0" by simp_all
    with oracle_failed(6) choose_next_link_no_request [OF oracle_failed(4)] t0
    show ?thesis by simp
  next
    case (moved links' c s chosen s' next_page)
    with hit have "c = cache r" "s = ?s0" by simp_all
    with moved(7) choose_next_link_no_request [OF moved(4)] t0
    show ?thesis by (simp add: is_request_def)
  qed
qed

subsection \<open>Where an iteration raises\<close>

lemma loop_body_raise:
  assumes "loop_body env target_page i r0 = Some (Raise e, r1)"
  shows "(\<exists>c s. get_links_from_page env (current_page r0) (cache r0)
                    (io (say (IterationStart (i + 1) (current_page r0)) r0)) = Some (Inl e, c, s)) \<or>
         (\<exists>links c s s'.
             get_links_from_page env (current_page r0) (cache r0)
               (io (say (IterationStart (i + 1) (current_page r0)) r0)) = Some (Inr links, c, s) \<and>
             links \<noteq> [] \<and>
             choose_next_link env (current_page r0) target_page (visited r0) links s = (Inl e, s'))"
  using assms
proof (cases rule: loop_body_cases)
  case (fetch_failed e' c s)
  then show ?thesis by auto
next
  case (oracle_failed links c s e' s')
  then show ?thesis by auto
qed simp_all

lemma loop_body_continue:
  assumes "normalize env (current_page r0) \<noteq> normalize env target_page"
    and "get_links_from_page env (current_page r0) (cache r0)
           (io (say (IterationStart (i + 1) (current_page r0)) r0)) = Some (Inr links, c, s)"
    and "links = [] \<or>
         (\<exists>chosen s'. choose_next_link env (current_page r0) target_page (visited r0) links s
                         = (Inr chosen, s'))"
  shows "\<exists>r1. loop_body env target_page i r0 = Some (Continue, r1)"
proof (cases links)
  case Nil
  with assms(1,2) show ?thesis by (simp add: loop_body_def Let_def say_def)
next
  case (Cons first others)
  with assms(3) obtain chosen s' where
    "choose_next_link env (current_page r0) target_page (visited r0) links s = (Inr chosen, s')"
    by auto
  with assms(1,2) Cons show ?thesis
    by (auto simp: loop_body_def Let_def say_def)
qed

lemma explore_loop_raise:
  "explore_loop env target_page its r = Some (Inl e, r') \<Longrightarrow>
   \<exists>pre i post r0. its = pre @ i # post \<and> continues env target_page pre r = Some r0 \<and>
      loop_body env target_page i r0 = Some (Raise e, r')"
proof (induction its arbitrary: r)
  case Nil
  then show ?case by simp
next
  case (Cons i its)
  from Cons.prems obtain st r1 where b: "loop_body env target_page i r = Some (st, r1)"
    by (auto split: option.splits)
  show ?case
  proof (cases st)
    case (Return p)
    with Cons.prems b show ?thesis by simp
  next
    case (Raise e')
    with Cons.prems b have "loop_body env target_page i r = Some (Raise e, r')" by simp
    then have "i # its = [] @ i # its \<and> continues env target_page [] r = Some r \<and>
      loop_body env target_page i r = Some (Raise e, r')" by simp
    then show ?thesis by blast
  next
    case Continue
    with Cons.prems b have "explore_loop env target_page its r1 = Some (Inl e, r')" by simp
    from Cons.IH [OF this] obtain pre j post r0 where
      "its = pre @ j # post" "continues env target_page pre r1 = Some r0"
      "loop_body env target_page j r0 = Some (Raise e, r')" by blast
    with b Continue have "i # its = (i # pre) @ j # post \<and>
      continues env target_page (i # pre) r = Some r0 \<and>
      loop_body env target_page j r0 = Some (Raise e, r')" by simp
    then show ?thesis by blast
  qed
qed

subsection \<open>Evaluating the model\<close>

lemmas eval_simps = get_links_from_page_def fetch_pages.simps exchange.simps script_env_def page_def
  MAX_RETRIES_def emit_def add_page_links_def set_add_def list_of_set_def has_reserved_prefix_def
  startswith_def list_remove_def initial_params_def Let_def

lemmas run_simps = loop_body_def choose_next_link_def generate_response_def
  normalize_def replace_space_def ascii_lower_def ascii_strip_def ascii_space_def
  say_def advance_def initial_run_def explore_path_def

section \<open>The claims\<close>

text \<open>
  C1. In every run of \<^verbatim>\<open>explore_path\<close> that returns a path, each element of the path after
  the first is one of the links that \<^verbatim>\<open>get_links_from_page\<close> computed, and cached, for the
  element just before it. An iteration that makes the path grow appends one element: the
  proposal of Gemini when that is among the links fetched for the current page, and the
  first of these links otherwise.
\<close>

theorem path_drawn_from_fetched_links:
  "(explore_path env start_page target_page max_iterations w = Some (Inr p, r) \<longrightarrow>
      (\<forall>i. Suc i < length p \<longrightarrow>
           (\<exists>links. cache r (p ! i) = Some links \<and> p ! Suc i \<in> set links))) \<and>
   (loop_body env target_page iteration r0 = Some (st, r1) \<and> path r1 \<noteq> path r0 \<longrightarrow>
      (\<exists>links c s chosen s'.
          get_links_from_page env (current_page r0) (cache r0)
            (io (say (IterationStart (iteration + 1) (current_page r0)) r0))
            = Some (Inr links, c, s) \<and>
          links \<noteq> [] \<and>
          choose_next_link env (current_page r0) target_page (visited r0) links s
            = (Inr chosen, s') \<and>
          path r1 = path r0 @ [if chosen \<in> set links then chosen else links ! 0]))"
proof (intro conjI impI)
  assume "explore_path env start_page target_page max_iterations w = Some (Inr p, r)"
  from explore_loop_drawn [OF this [unfolded explore_path_def] path_ok_initial]
  show "\<forall>i. Suc i < length p \<longrightarrow>
           (\<exists>links. cache r (p ! i) = Some links \<and> p ! Suc i \<in> set links)"
    by (simp add: drawn_from_edges_def)
next
  assume a: "loop_body env target_page iteration r0 = Some (st, r1) \<and> path r1 \<noteq> path r0"
  then have b: "loop_body env target_page iteration r0 = Some (st, r1)" and
    n: "path r1 \<noteq> path r0" by simp_all
  from b show "\<exists>links c s chosen s'.
          get_links_from_page env (current_page r0) (cache r0)
            (io (say (IterationStart (iteration + 1) (current_page r0)) r0))
            = Some (Inr links, c, s) \<and>
          links \<noteq> [] \<and>
          choose_next_link env (current_page r0) target_page (visited r0) links s
            = (Inr chosen, s') \<and>
          path r1 = path r0 @ [if chosen \<in> set links then chosen else links ! 0]"
  proof (cases rule: loop_body_cases)
    case (moved links c s chosen s' next_page)
    from moved(3) have "hd links = links ! 0" by (simp add: hd_conv_nth)
    with moved have "path r1 = path r0 @ [if chosen \<in> set links then chosen else links ! 0]"
      by simp
    with moved(2,3,4) show ?thesis by blast
  qed (use n in simp_all)
qed

text \<open>
  A run of two iterations: Gemini proposes \<open>Cheese\<close>, a link of \<open>Pizza\<close>, then \<open>Ketchup\<close>,
  which is no link of \<open>Cheese\<close>, so that the first link \<open>Tomato\<close> is taken.
\<close>

theorem path_drawn_from_fetched_links_witness:
  "(\<exists>r. explore_path script_env ''Pizza'' ''Basil'' 2
          ([page [''Cheese'', ''Help:Pizza''], page [''Tomato'', ''Basil'']],
           [Text ''Cheese'', Text ''Ketchup''])
        = Some (Inr [''Pizza'', ''Cheese'', ''Tomato''], r) \<and>
       (\<exists>links. cache r ''Pizza'' = Some links \<and> ''Cheese'' \<in> set links) \<and>
       (\<exists>links. cache r ''Cheese'' = Some links \<and> ''Tomato'' \<in> set links)) \<and>
   (\<exists>links c s chosen s'.
       get_links_from_page script_env ''Cheese'' [''Pizza'' \<mapsto> [''Cheese'']]
         \<lparr>world = ([page [''Tomato'', ''Basil'']], [Text ''Ketchup'']),
          trace = [Print (IterationStart 2 ''Cheese'')]\<rparr>
         = Some (Inr links, c, s) \<and>
       links \<noteq> [] \<and>
       choose_next_link script_env ''Cheese'' ''Basil'' [''Pizza'', ''Cheese''] links s
         = (Inr chosen, s') \<and>
       [''Pizza'', ''Cheese'', ''Tomato''] =
         [''Pizza'', ''Cheese''] @ [if chosen \<in> set links then chosen else links ! 0])"
proof -
  let ?run = "explore_path script_env ''Pizza'' ''Basil'' 2
          ([page [''Cheese'', ''Help:Pizza''], page [''Tomato'', ''Basil'']],
           [Text ''Cheese'', Text ''Ketchup''])"
  let ?r0 = "\<lparr>io = \<lparr>world = ([page [''Tomato'', ''Basil'']], [Text ''Ketchup'']), trace = []\<rparr>,
             cache = [''Pizza'' \<mapsto> [''Cheese'']], visited = [''Pizza'', ''Cheese''],
             current_page = ''Cheese'', path = [''Pizza'', ''Cheese'']\<rparr>"
  note T = path_drawn_from_fetched_links
  have "map_option fst ?run = Some (Inr [''Pizza'', ''Cheese'', ''Tomato''])"
    by code_simp
  then obtain r where e: "?run = Some (Inr [''Pizza'', ''Cheese'', ''Tomato''], r)"
    by auto
  from T [where env = script_env and start_page = "''Pizza''" and target_page = "''Basil''"
      and max_iterations = 2 and p = "[''Pizza'', ''Cheese'', ''Tomato'']" and r = r] e
  have a: "\<forall>i. Suc i < 3 \<longrightarrow> (\<exists>links. cache r ([''Pizza'', ''Cheese'', ''Tomato''] ! i) = Some links
              \<and> [''Pizza'', ''Cheese'', ''Tomato''] ! Suc i \<in> set links)"
    by simp
  from a [rule_format, of 0] a [rule_format, of 1] e
  have 1: "\<exists>r. ?run = Some (Inr [''Pizza'', ''Cheese'', ''Tomato''], r) \<and>
       (\<exists>links. cache r ''Pizza'' = Some links \<and> ''Cheese'' \<in> set links) \<and>
       (\<exists>links. cache r ''Cheese'' = Some links \<and> ''Tomato'' \<in> set links)"
    by simp
  have "map_option (\<lambda>(st, r1). (st, path r1)) (loop_body script_env ''Basil'' 1 ?r0)
        = Some (Continue, [''Pizza'', ''Cheese'', ''Tomato''])"
    by code_simp
  then obtain r1 where b: "loop_body script_env ''Basil'' 1 ?r0 = Some (Continue, r1)"
    and p1: "path r1 = [''Pizza'', ''Cheese'', ''Tomato'']"
    by auto
  from p1 have n: "path r1 \<noteq> path ?r0" by simp
  have io_eq: "io (say (IterationStart (1 + 1) ''Cheese'') ?r0) =
      \<lparr>world = ([page [''Tomato'', ''Basil'']], [Text ''Ketchup'']),
       trace = [Print (IterationStart 2 ''Cheese'')]\<rparr>"
    by (simp add: say_def emit_def)
  have sel: "current_page ?r0 = ''Cheese''" "cache ?r0 = [''Pizza'' \<mapsto> [''Cheese'']]"
    "visited ?r0 = [''Pizza'', ''Cheese'']" "path ?r0 = [''Pizza'', ''Cheese'']"
    by simp_all
  from T [where env = script_env and target_page = "''Basil''" and iteration = 1 and ?r0.0 = ?r0
      and st = Continue and ?r1.0 = r1] b n
  have raw: "\<exists>links c s chosen s'.
          get_links_from_page script_env (current_page ?r0) (cache ?r0)
            (io (say (IterationStart (1 + 1) (current_page ?r0)) ?r0))
            = Some (Inr links, c, s) \<and>
          links \<noteq> [] \<and>
          choose_next_link script_env (current_page ?r0) ''Basil'' (visited ?r0) links s
            = (Inr chosen, s') \<and>
          path r1 = path ?r0 @ [if chosen \<in> set links then chosen else links ! 0]"
    by blast
  note 2 = raw [unfolded sel io_eq p1]
  from 1 2 show ?thesis by blast
qed

text \<open>
  C2, as amended. When the start page and the target page are equal after \<^verbatim>\<open>strip\<close>, \<^verbatim>\<open>lower\<close> and the
  replacement of spaces by underscores, and \<^verbatim>\<open>max_iterations\<close> is at least 1,
  \<^verbatim>\<open>explore_path\<close> returns the path holding the start page alone, in the first iteration:
  the world is untouched, the cache is empty, and the trace holds the diagnostic of the
  reached target and nothing else, so no request was sent and Gemini was not called. So it
  is for \<^verbatim>\<open>explore_path("Pizza", "Pizza", 10)\<close>, in every environment.
\<close>

theorem start_equal_to_target_returns_at_once:
  "(normalize env start_page = normalize env target_page \<and> 1 \<le> max_iterations \<longrightarrow>
      explore_path env start_page target_page max_iterations w =
        Some (Inr [start_page],
              \<lparr>io = \<lparr>world = w, trace = [Print TargetReached]\<rparr>, cache = Map.empty,
               visited = [start_page], current_page = start_page, path = [start_page]\<rparr>)) \<and>
   explore_path env ''Pizza'' ''Pizza'' 10 w =
     Some (Inr [''Pizza''],
           \<lparr>io = \<lparr>world = w, trace = [Print TargetReached]\<rparr>, cache = Map.empty,
            visited = [''Pizza''], current_page = ''Pizza'', path = [''Pizza'']\<rparr>)"
proof -
  have *: "explore_path env a b n w =
        Some (Inr [a],
              \<lparr>io = \<lparr>world = w, trace = [Print TargetReached]\<rparr>, cache = Map.empty,
               visited = [a], current_page = a, path = [a]\<rparr>)"
    if "normalize env a = normalize env b" and "1 \<le> n" for a b n
  proof -
    from that(2) have "[0..<nat n] = 0 # [1..<nat n]" by (simp add: upt_conv_Cons)
    with that(1) show ?thesis
      by (simp add: explore_path_def loop_body_def initial_run_def say_def emit_def)
  qed
  show ?thesis using * [of "''Pizza''" "''Pizza''" 10] * [of start_page target_page max_iterations]
    by simp
qed

text \<open>Two page names that differ in case, in a trailing space and in the separator.\<close>

theorem start_equal_to_target_returns_at_once_witness:
  "normalize script_env ''New York '' = normalize script_env ''new_york'' \<and>
   explore_path script_env ''New York '' ''new_york'' 1 ([page [''Albany'']], [Text ''Albany'']) =
     Some (Inr [''New York ''],
           \<lparr>io = \<lparr>world = ([page [''Albany'']], [Text ''Albany'']), trace = [Print TargetReached]\<rparr>,
            cache = Map.empty, visited = [''New York ''], current_page = ''New York '',
            path = [''New York '']\<rparr>) \<and>
   explore_path script_env ''Pizza'' ''Pizza'' 10 ([page [''Cheese'']], [Text ''Cheese'']) =
     Some (Inr [''Pizza''],
           \<lparr>io = \<lparr>world = ([page [''Cheese'']], [Text ''Cheese'']), trace = [Print TargetReached]\<rparr>,
            cache = Map.empty, visited = [''Pizza''], current_page = ''Pizza'', path = [''Pizza'']\<rparr>)"
proof -
  have h: "normalize script_env ''New York '' = normalize script_env ''new_york''"
    by (simp add: normalize_def script_env_def ascii_strip_def ascii_space_def ascii_lower_def
        replace_space_def)
  have n: "(1::int) \<le> 1" by simp
  from start_equal_to_target_returns_at_once
    [of script_env "''New York ''" "''new_york''" 1 "([page [''Albany'']], [Text ''Albany''])"]
    start_equal_to_target_returns_at_once
    [of script_env _ _ _ "([page [''Cheese'']], [Text ''Cheese''])"]
    h n
  show ?thesis by blast
qed

text \<open>
  C2 as it was stated fails: line 162 strips the whitespace at both ends instead of
  replacing it, and replaces no whitespace but the space. \<^verbatim>\<open>" Pizza"\<close> and \<^verbatim>\<open>"_pizza"\<close> are
  equal under the rule in the words of the specification and differ under line 162, so
  the run fetches the links of the start page and asks Gemini. A tab inside a name is
  another such case.
\<close>

theorem leading_space_is_stripped_not_replaced:
  "spec_normalize '' Pizza'' = spec_normalize ''_pizza'' \<and>
   normalize script_env '' Pizza'' = ''pizza'' \<and>
   normalize script_env ''_pizza'' = ''_pizza'' \<and>
   explore_path script_env '' Pizza'' ''_pizza'' 1 ([page [''Cheese'']], [Text ''Cheese'']) =
     Some (Inr ['' Pizza'', ''Cheese''],
           \<lparr>io = \<lparr>world = ([], []),
                  trace = [Print (IterationStart 1 '' Pizza''), HttpGet (initial_params '' Pizza''),
                           Print (PromptingGemini
                                    (build_prompt '' Pizza'' ''_pizza'' ['' Pizza''] [''Cheese''])),
                           GeminiCall (build_prompt '' Pizza'' ''_pizza'' ['' Pizza''] [''Cheese'']),
                           TimeSleep 2, Print (GeminiResponse ''Cheese''),
                           Print (MovingTo ''Cheese''), Print MaxIterations]\<rparr>,
            cache = ['' Pizza'' \<mapsto> [''Cheese'']], visited = ['' Pizza'', ''Cheese''],
            current_page = ''Cheese'', path = ['' Pizza'', ''Cheese'']\<rparr>) \<and>
   spec_normalize (''New'' @ [CHR 0x09] @ ''York'') = spec_normalize ''new_york'' \<and>
   normalize script_env (''New'' @ [CHR 0x09] @ ''York'') = ''new'' @ [CHR 0x09] @ ''york'' \<and>
   normalize script_env ''new_york'' = ''new_york''"
  by (simp add: spec_normalize_def run_simps eval_simps upt_conv_Cons)

text \<open>
  C3. In an iteration where Gemini is asked and proposes a title that is not one of the
  available links, the loop goes on (it neither returns nor raises) with the first of the
  available links as the new current page, appended to the path and to the visited pages;
  two diagnostics tell of the rejected proposal and of the link taken instead.
\<close>

theorem absent_proposal_falls_back_to_first_link:
  assumes "normalize env (current_page r) \<noteq> normalize env target_page"
    and "get_links_from_page env (current_page r) (cache r)
           (io (say (IterationStart (iteration + 1) (current_page r)) r))
         = Some (Inr available_links, c, s)"
    and "available_links \<noteq> []"
    and "choose_next_link env (current_page r) target_page (visited r) available_links s
         = (Inr chosen_link, s')"
    and "chosen_link \<notin> set available_links"
  shows "loop_body env target_page iteration r =
           Some (Continue,
                 r\<lparr>io := emit [Print (NotInLinks chosen_link),
                              Print (Defaulting (available_links ! 0)),
                              Print (MovingTo (available_links ! 0))] s',
                   cache := c,
                   visited := visited r @ [available_links ! 0],
                   current_page := available_links ! 0,
                   path := path r @ [available_links ! 0]\<rparr>)"
proof -
  from assms(3) obtain first others where l: "available_links = first # others"
    by (cases available_links) auto
  from assms l show ?thesis
    by (auto simp: loop_body_def Let_def say_def advance_def)
qed

text \<open>Gemini answers \<open>Ketchup\<close> where the links are \<open>Cheese\<close> and \<open>Tomato\<close>.\<close>

theorem absent_proposal_falls_back_to_first_link_witness:
  "loop_body script_env ''Basil'' 0
       (initial_run ''Pizza'' ([page [''Cheese'', ''Tomato'']], [Text '' Ketchup ''])) =
     Some (Continue,
           \<lparr>io = \<lparr>world = ([], []),
                  trace = [Print (IterationStart 1 ''Pizza''), HttpGet (initial_params ''Pizza''),
                           Print (PromptingGemini
                                    (build_prompt ''Pizza'' ''Basil'' [''Pizza''] [''Cheese'', ''Tomato''])),
                           GeminiCall (build_prompt ''Pizza'' ''Basil'' [''Pizza''] [''Cheese'', ''Tomato'']),
                           TimeSleep 2, Print (GeminiResponse ''Ketchup''),
                           Print (NotInLinks ''Ketchup''), Print (Defaulting ''Cheese''),
                           Print (MovingTo ''Cheese'')]\<rparr>,
            cache = [''Pizza'' \<mapsto> [''Cheese'', ''Tomato'']], visited = [''Pizza'', ''Cheese''],
            current_page = ''Cheese'', path = [''Pizza'', ''Cheese'']\<rparr>)"
proof -
  let ?r = "initial_run ''Pizza'' ([page [''Cheese'', ''Tomato'']], [Text '' Ketchup ''])"
  let ?s = "\<lparr>world = (([] :: http_result list), [Text '' Ketchup '']),
             trace = [Print (IterationStart 1 ''Pizza''), HttpGet (initial_params ''Pizza'')]\<rparr>"
  let ?p = "build_prompt ''Pizza'' ''Basil'' [''Pizza''] [''Cheese'', ''Tomato'']"
  have h: "normalize script_env (current_page ?r) \<noteq> normalize script_env ''Basil''"
    by (simp add: run_simps script_env_def)
  have g: "get_links_from_page script_env (current_page ?r) (cache ?r)
             (io (say (IterationStart (0 + 1) (current_page ?r)) ?r))
           = Some (Inr [''Cheese'', ''Tomato''], [''Pizza'' \<mapsto> [''Cheese'', ''Tomato'']], ?s)"
    by (simp add: eval_simps initial_run_def say_def)
  have ne: "[''Cheese'', ''Tomato''] \<noteq> []" by simp
  have ch: "choose_next_link script_env (current_page ?r) ''Basil'' (visited ?r) [''Cheese'', ''Tomato''] ?s
           = (Inr ''Ketchup'',
              \<lparr>world = ([], []),
               trace = [Print (IterationStart 1 ''Pizza''), HttpGet (initial_params ''Pizza''),
                        Print (PromptingGemini ?p), GeminiCall ?p, TimeSleep 2,
                        Print (GeminiResponse ''Ketchup'')]\<rparr>)"
    by (simp add: choose_next_link_def generate_response_def script_env_def emit_def Let_def
        ascii_strip_def ascii_space_def initial_run_def)
  have nm: "''Ketchup'' \<notin> set [''Cheese'', ''Tomato'']" by simp
  from absent_proposal_falls_back_to_first_link [OF h g ne ch nm] show ?thesis
    by (simp add: initial_run_def emit_def)
qed

text \<open>
  C4, as amended. The links that \<^verbatim>\<open>get_links_from_page\<close> returns hold no title that starts
  with one of the twelve prefixes of line 80 (\<open>has_reserved_prefix\<close>); the same is true of
  every list in the cache, at every moment of a run of \<^verbatim>\<open>explore_path\<close>. Among the
  twelve, the talk and the portal namespaces stand in their French forms
  (\<^verbatim>\<open>Discussion:\<close>, \<^verbatim>\<open>Portail:\<close>).
\<close>

theorem links_with_a_listed_prefix_are_removed:
  "(no_reserved_links c \<and> get_links_from_page env page_title c s = Some (Inr links, c', s') \<longrightarrow>
      (\<forall>l\<in>set links. \<not> has_reserved_prefix l) \<and> no_reserved_links c') \<and>
   (explore_path env start_page target_page max_iterations w = Some (out, r) \<and>
    cache r n = Some ls \<longrightarrow> (\<forall>l\<in>set ls. \<not> has_reserved_prefix l))"
proof (intro conjI impI)
  assume a: "no_reserved_links c \<and> get_links_from_page env page_title c s = Some (Inr links, c', s')"
  with get_links_clean [of c env page_title s "Inr links" c' s']
  show "\<forall>l\<in>set links. \<not> has_reserved_prefix l" and "no_reserved_links c'" by auto
next
  assume a: "explore_path env start_page target_page max_iterations w = Some (out, r) \<and>
    cache r n = Some ls"
  have "no_reserved_links (cache (initial_run start_page w))"
    by (simp add: no_reserved_links_def initial_run_def)
  with a explore_loop_clean [of env target_page "[0..<nat max_iterations]" "initial_run start_page w" out r]
  have "no_reserved_links (cache r)" by (simp add: explore_path_def)
  with a show "\<forall>l\<in>set ls. \<not> has_reserved_prefix l" by (auto simp: no_reserved_links_def)
qed

text \<open>A page with two links to keep and two to remove, fetched alone and then in a run.\<close>

theorem links_with_a_listed_prefix_are_removed_witness:
  "get_links_from_page script_env ''Pizza'' Map.empty
       \<lparr>world = ([page [''Help:Contents'', ''Cheese'', ''File:Pizza.jpg'', ''Tomato'']], []), trace = []\<rparr>
     = Some (Inr [''Cheese'', ''Tomato''], [''Pizza'' \<mapsto> [''Cheese'', ''Tomato'']],
             \<lparr>world = ([], []), trace = [HttpGet (initial_params ''Pizza'')]\<rparr>) \<and>
   \<not> has_reserved_prefix ''Cheese'' \<and> \<not> has_reserved_prefix ''Tomato'' \<and>
   has_reserved_prefix ''Help:Contents'' \<and> has_reserved_prefix ''File:Pizza.jpg'' \<and>
   map_option (\<lambda>(out, r). (out, cache r ''Pizza''))
     (explore_path script_env ''Pizza'' ''Basil'' 1
        ([page [''Help:Contents'', ''Cheese'', ''File:Pizza.jpg'', ''Tomato'']], [Text ''Tomato'']))
     = Some (Inr [''Pizza'', ''Tomato''], Some [''Cheese'', ''Tomato''])"
proof -
  let ?s = "\<lparr>world = ([page [''Help:Contents'', ''Cheese'', ''File:Pizza.jpg'', ''Tomato'']],
                       ([] :: gemini_result list)), trace = []\<rparr>"
  let ?run = "explore_path script_env ''Pizza'' ''Basil'' 1
        ([page [''Help:Contents'', ''Cheese'', ''File:Pizza.jpg'', ''Tomato'']], [Text ''Tomato''])"
  have h: "no_reserved_links Map.empty" by (simp add: no_reserved_links_def)
  have g: "get_links_from_page script_env ''Pizza'' Map.empty ?s
     = Some (Inr [''Cheese'', ''Tomato''], [''Pizza'' \<mapsto> [''Cheese'', ''Tomato'']],
             \<lparr>world = ([], []), trace = [HttpGet (initial_params ''Pizza'')]\<rparr>)"
    by (simp add: eval_simps)
  have "map_option (\<lambda>(out, r). (out, cache r ''Pizza'')) ?run
        = Some (Inr [''Pizza'', ''Tomato''], Some [''Cheese'', ''Tomato''])"
    by code_simp
  then obtain r where e: "?run = Some (Inr [''Pizza'', ''Tomato''], r)"
    and cr: "cache r ''Pizza'' = Some [''Cheese'', ''Tomato'']"
    by auto
  note T = links_with_a_listed_prefix_are_removed
  from T [where c = Map.empty and env = script_env and page_title = "''Pizza''" and s = ?s
      and links = "[''Cheese'', ''Tomato'']"] h g
  have 1: "\<forall>l\<in>set [''Cheese'', ''Tomato'']. \<not> has_reserved_prefix l" by blast
  from T [where env = script_env and start_page = "''Pizza''" and target_page = "''Basil''"
      and max_iterations = 1 and out = "Inr [''Pizza'', ''Tomato'']" and r = r and n = "''Pizza''"
      and ls = "[''Cheese'', ''Tomato'']"] e cr
  have 2: "\<forall>l\<in>set [''Cheese'', ''Tomato'']. \<not> has_reserved_prefix l" by blast
  have 3: "has_reserved_prefix ''Help:Contents''" "has_reserved_prefix ''File:Pizza.jpg''"
    by (simp_all add: has_reserved_prefix_def startswith_def)
  from 1 2 3 g e cr show ?thesis by simp
qed

text \<open>
  C4 as it was stated fails: the English prefixes \<^verbatim>\<open>Talk:\<close> and \<^verbatim>\<open>Portal:\<close> are not among
  the twelve, and titles that start with them stay in the returned links.
\<close>

theorem talk_and_portal_links_are_kept:
  "get_links_from_page script_env ''Pizza'' Map.empty
       \<lparr>world = ([page [''Talk:Pizza'', ''Help:Contents'', ''Portal:Food'', ''Cheese'']], []), trace = []\<rparr>
     = Some (Inr [''Talk:Pizza'', ''Portal:Food'', ''Cheese''],
             [''Pizza'' \<mapsto> [''Talk:Pizza'', ''Portal:Food'', ''Cheese'']],
             \<lparr>world = ([], []), trace = [HttpGet (initial_params ''Pizza'')]\<rparr>) \<and>
   startswith ''Talk:Pizza'' ''Talk:'' \<and> startswith ''Portal:Food'' ''Portal:''"
  by (simp add: eval_simps)

text \<open>
  C5. Within one HTTP exchange, every answer 429 is followed by a sleep of \<open>2 ^ attempt\<close>
  seconds, the attempts counted from 1, and then by the same request again. After five
  answers 429 in a row the exchange raises \<open>MaxRetriesExceeded\<close>, whatever page of the
  pagination it belongs to, and \<^verbatim>\<open>get_links_from_page\<close> fails with it, the cache unchanged;
  with six answers 429 at hand the exchange fails all the same, after five requests. After fewer than five answers 429 and then an answer 200
  without a \<^verbatim>\<open>continue\<close> key, \<^verbatim>\<open>get_links_from_page\<close> returns the links and stores them in
  the cache.
\<close>

theorem throttling_is_retried_then_fails:
  "(throttled env ps 5 (world s) = Some w' \<longrightarrow>
      exchange env page_title ps 0 s =
        (Inl MaxRetriesExceeded, emit (backoff page_title ps 0 5) (s\<lparr>world := w'\<rparr>)) \<and>
      fetch_pages env page_title ps links s =
        Some (Inl MaxRetriesExceeded, emit (backoff page_title ps 0 5) (s\<lparr>world := w'\<rparr>))) \<and>
   (c page_title = None \<and> throttled env (initial_params page_title) 5 (world s) = Some w' \<longrightarrow>
      get_links_from_page env page_title c s =
        Some (Inl MaxRetriesExceeded, c,
              emit (backoff page_title (initial_params page_title) 0 5) (s\<lparr>world := w'\<rparr>))) \<and>
   (c page_title = None \<and> k < 5 \<and>
    throttled env (initial_params page_title) k (world s) = Some w' \<and>
    http_get env (initial_params page_title) w' = (Response 200 (Some d), w'') \<and>
    continue d = None \<longrightarrow>
      get_links_from_page env page_title c s =
        Some (Inr (filter (\<lambda>l. \<not> has_reserved_prefix l) (list_of_set env (add_page_links (pages d) []))),
              c(page_title \<mapsto>
                filter (\<lambda>l. \<not> has_reserved_prefix l) (list_of_set env (add_page_links (pages d) []))),
              emit (backoff page_title (initial_params page_title) 0 k
                    @ [HttpGet (initial_params page_title)]) (s\<lparr>world := w''\<rparr>))) \<and>
   (throttled env ps 6 (world s) = Some w6 \<longrightarrow>
      fst (exchange env page_title ps 0 s) = Inl MaxRetriesExceeded \<and>
      length (filter (\<lambda>e. e = HttpGet ps) (trace (snd (exchange env page_title ps 0 s))))
        = length (filter (\<lambda>e. e = HttpGet ps) (trace s)) + 5) \<and>
   backoff page_title ps 0 5 =
     [HttpGet ps, Print (Received429 page_title 2), AsyncSleep 2,
      HttpGet ps, Print (Received429 page_title 4), AsyncSleep 4,
      HttpGet ps, Print (Received429 page_title 8), AsyncSleep 8,
      HttpGet ps, Print (Received429 page_title 16), AsyncSleep 16,
      HttpGet ps, Print (Received429 page_title 32), AsyncSleep 32]"
proof (intro conjI impI)
  assume t: "throttled env ps 5 (world s) = Some w'"
  from max_retries [OF t]
  show x: "exchange env page_title ps 0 s =
        (Inl MaxRetriesExceeded, emit (backoff page_title ps 0 5) (s\<lparr>world := w'\<rparr>))" .
  show "fetch_pages env page_title ps links s =
        Some (Inl MaxRetriesExceeded, emit (backoff page_title ps 0 5) (s\<lparr>world := w'\<rparr>))"
    by (subst fetch_pages.simps) (simp add: x)
next
  assume a: "c page_title = None \<and> throttled env (initial_params page_title) 5 (world s) = Some w'"
  then have "fetch_pages env page_title (initial_params page_title) [] s =
        Some (Inl MaxRetriesExceeded,
              emit (backoff page_title (initial_params page_title) 0 5) (s\<lparr>world := w'\<rparr>))"
    by (subst fetch_pages.simps) (simp add: max_retries)
  with a show "get_links_from_page env page_title c s =
        Some (Inl MaxRetriesExceeded, c,
              emit (backoff page_title (initial_params page_title) 0 5) (s\<lparr>world := w'\<rparr>))"
    by (simp add: get_links_from_page_def)
next
  assume a: "c page_title = None \<and> k < 5 \<and>
    throttled env (initial_params page_title) k (world s) = Some w' \<and>
    http_get env (initial_params page_title) w' = (Response 200 (Some d), w'') \<and>
    continue d = None"
  then have x: "exchange env page_title (initial_params page_title) 0 s =
      (Inr d, emit (backoff page_title (initial_params page_title) 0 k
                    @ [HttpGet (initial_params page_title)]) (s\<lparr>world := w''\<rparr>))"
    by (intro retry_then_success) auto
  from a have "fetch_pages env page_title (initial_params page_title) [] s =
      Some (Inr (add_page_links (pages d) []),
            emit (backoff page_title (initial_params page_title) 0 k
                    @ [HttpGet (initial_params page_title)]) (s\<lparr>world := w''\<rparr>))"
    by (subst fetch_pages.simps) (simp add: x)
  with a show "get_links_from_page env page_title c s =
        Some (Inr (filter (\<lambda>l. \<not> has_reserved_prefix l) (list_of_set env (add_page_links (pages d) []))),
              c(page_title \<mapsto>
                filter (\<lambda>l. \<not> has_reserved_prefix l) (list_of_set env (add_page_links (pages d) []))),
              emit (backoff page_title (initial_params page_title) 0 k
                    @ [HttpGet (initial_params page_title)]) (s\<lparr>world := w''\<rparr>))"
    by (simp add: get_links_from_page_def remove_reserved_filter Let_def)
next
  assume t: "throttled env ps 6 (world s) = Some w6"
  from throttled_less [OF t, of 5] obtain w5 where "throttled env ps 5 (world s) = Some w5"
    by auto
  from max_retries [OF this, of page_title]
  show "fst (exchange env page_title ps 0 s) = Inl MaxRetriesExceeded"
    and "length (filter (\<lambda>e. e = HttpGet ps) (trace (snd (exchange env page_title ps 0 s))))
        = length (filter (\<lambda>e. e = HttpGet ps) (trace s)) + 5"
    by (simp_all add: backoff_def numeral_eq_Suc upt_conv_Cons del: upt_Suc)
next
  show "backoff page_title ps 0 5 =
     [HttpGet ps, Print (Received429 page_title 2), AsyncSleep 2,
      HttpGet ps, Print (Received429 page_title 4), AsyncSleep 4,
      HttpGet ps, Print (Received429 page_title 8), AsyncSleep 8,
      HttpGet ps, Print (Received429 page_title 16), AsyncSleep 16,
      HttpGet ps, Print (Received429 page_title 32), AsyncSleep 32]"
    by (simp add: backoff_def numeral_eq_Suc upt_conv_Cons del: upt_Suc)
qed

text \<open>
  A server that answers 429 six times: the sixth answer is left unread. A server that
  answers 429 four times and then sends the page.
\<close>

theorem throttling_is_retried_then_fails_witness:
  "get_links_from_page script_env ''Pizza'' Map.empty
       \<lparr>world = ([Response 429 None, Response 429 None, Response 429 None, Response 429 None,
                   Response 429 None, Response 429 None], []), trace = []\<rparr>
     = Some (Inl MaxRetriesExceeded, Map.empty,
             \<lparr>world = ([Response 429 None], []),
              trace = backoff ''Pizza'' (initial_params ''Pizza'') 0 5\<rparr>) \<and>
   get_links_from_page script_env ''Pizza'' Map.empty
       \<lparr>world = ([Response 429 None, Response 429 None, Response 429 None, Response 429 None,
                   page [''Cheese'']], []), trace = []\<rparr>
     = Some (Inr [''Cheese''], [''Pizza'' \<mapsto> [''Cheese'']],
             \<lparr>world = ([], []),
              trace = backoff ''Pizza'' (initial_params ''Pizza'') 0 4
                      @ [HttpGet (initial_params ''Pizza'')]\<rparr>) \<and>
   fst (exchange script_env ''Pizza'' (initial_params ''Pizza'') 0
       \<lparr>world = ([Response 429 None, Response 429 None, Response 429 None, Response 429 None,
                   Response 429 None, Response 429 None], []), trace = []\<rparr>)
     = Inl MaxRetriesExceeded \<and>
   [n. AsyncSleep n \<leftarrow> backoff ''Pizza'' (initial_params ''Pizza'') 0 5] = [2, 4, 8, 16, 32]"
proof -
  let ?ps = "initial_params ''Pizza''"
  let ?s6 = "\<lparr>world = ([Response 429 None, Response 429 None, Response 429 None, Response 429 None,
                   Response 429 None, Response 429 None], ([] :: gemini_result list)), trace = []\<rparr>"
  let ?s4 = "\<lparr>world = ([Response 429 None, Response 429 None, Response 429 None, Response 429 None,
                   page [''Cheese'']], ([] :: gemini_result list)), trace = []\<rparr>"
  have c: "(Map.empty :: cache) ''Pizza'' = None" by simp
  have t6: "throttled script_env ?ps 5 (world ?s6) = Some ([Response 429 None], [])"
    by (simp add: script_env_def numeral_eq_Suc)
  have t4: "throttled script_env ?ps 4 (world ?s4) = Some ([page [''Cheese'']], [])"
    by (simp add: script_env_def numeral_eq_Suc)
  have ok: "http_get script_env ?ps ([page [''Cheese'']], []) =
        (Response 200 (Some \<lparr>pages = [Some [''Cheese'']], continue = None\<rparr>), ([], []))"
    by (simp add: script_env_def page_def)
  have k: "(4::nat) < 5" by simp
  have d: "continue \<lparr>pages = [Some [''Cheese'']], continue = None\<rparr> = None" by simp
  note T = throttling_is_retried_then_fails
  from T [where env = script_env and c = Map.empty and page_title = "''Pizza''" and s = ?s6
      and w' = "([Response 429 None], [])"] c t6
  have 1: "get_links_from_page script_env ''Pizza'' Map.empty ?s6 =
        Some (Inl MaxRetriesExceeded, Map.empty,
              emit (backoff ''Pizza'' ?ps 0 5) (?s6\<lparr>world := ([Response 429 None], [])\<rparr>))"
    by blast
  from T [where env = script_env and c = Map.empty and page_title = "''Pizza''" and s = ?s4
      and w' = "([page [''Cheese'']], [])" and k = 4 and w'' = "([], [])"
      and d = "\<lparr>pages = [Some [''Cheese'']], continue = None\<rparr>"] c k t4 ok d
  have 2: "get_links_from_page script_env ''Pizza'' Map.empty ?s4 =
        Some (Inr (filter (\<lambda>l. \<not> has_reserved_prefix l)
                     (list_of_set script_env (add_page_links (pages \<lparr>pages = [Some [''Cheese'']], continue = None\<rparr>) []))),
              Map.empty(''Pizza'' \<mapsto> filter (\<lambda>l. \<not> has_reserved_prefix l)
                     (list_of_set script_env (add_page_links (pages \<lparr>pages = [Some [''Cheese'']], continue = None\<rparr>) []))),
              emit (backoff ''Pizza'' ?ps 0 4 @ [HttpGet ?ps]) (?s4\<lparr>world := ([], [])\<rparr>))"
    by blast
  have 3: "filter (\<lambda>l. \<not> has_reserved_prefix l)
             (list_of_set script_env (add_page_links (pages \<lparr>pages = [Some [''Cheese'']], continue = None\<rparr>) []))
           = [''Cheese'']"
    by (simp add: eval_simps)
  from T [where env = script_env and ps = ?ps and page_title = "''Pizza''"]
  have 4: "[n. AsyncSleep n \<leftarrow> backoff ''Pizza'' ?ps 0 5] = [2, 4, 8, 16, 32]"
    by simp
  have t66: "throttled script_env ?ps 6 (world ?s6) = Some ([], [])"
    by (simp add: script_env_def numeral_eq_Suc)
  from T [where env = script_env and ps = ?ps and page_title = "''Pizza''" and s = ?s6
      and ?w6.0 = "([], [])"] t66
  have 5: "fst (exchange script_env ''Pizza'' ?ps 0 ?s6) = Inl MaxRetriesExceeded" by blast
  from 1 2 3 4 5 show ?thesis by (simp add: emit_def)
qed

text \<open>
  C6, as amended. A path that \<^verbatim>\<open>explore_path\<close> returns has at most \<open>nat max_iterations + 1\<close>
  elements, which is \<open>max_iterations + 1\<close> whenever \<^verbatim>\<open>max_iterations\<close> is not negative. When
  every iteration of the budget runs to its end, \<^verbatim>\<open>explore_path\<close> returns the path built so
  far as its value, after the diagnostic of the exhausted budget. An iteration runs to its
  end whenever the current page is not the target, the fetch returns links, and Gemini
  answers (or there are no links to ask about). An iteration raises only the error that its
  fetch or its call to Gemini raised, and \<^verbatim>\<open>explore_path\<close> raises only what one of its
  iterations raised, after the iterations before it ran to their ends: the loop raises
  nothing of its own.
\<close>

theorem path_length_is_bounded:
  "(explore_path env start_page target_page max_iterations w = Some (Inr p, r) \<longrightarrow>
      length p \<le> nat max_iterations + 1) \<and>
   (0 \<le> max_iterations \<and>
    explore_path env start_page target_page max_iterations w = Some (Inr p, r) \<longrightarrow>
      int (length p) \<le> max_iterations + 1) \<and>
   (continues env target_page [0..<nat max_iterations] (initial_run start_page w) = Some r' \<longrightarrow>
      explore_path env start_page target_page max_iterations w
        = Some (Inr (path r'), say MaxIterations r') \<and>
      length (path r') \<le> nat max_iterations + 1) \<and>
   (normalize env (current_page r0) \<noteq> normalize env target_page \<and>
    get_links_from_page env (current_page r0) (cache r0)
      (io (say (IterationStart (iteration + 1) (current_page r0)) r0)) = Some (Inr links, c, s) \<and>
    (links = [] \<or>
     (\<exists>chosen s'. choose_next_link env (current_page r0) target_page (visited r0) links s
                     = (Inr chosen, s'))) \<longrightarrow>
      (\<exists>r1. loop_body env target_page iteration r0 = Some (Continue, r1))) \<and>
   (loop_body env target_page iteration r0 = Some (Raise e, r2) \<longrightarrow>
      (\<exists>c s. get_links_from_page env (current_page r0) (cache r0)
                 (io (say (IterationStart (iteration + 1) (current_page r0)) r0))
               = Some (Inl e, c, s)) \<or>
      (\<exists>links c s s'.
          get_links_from_page env (current_page r0) (cache r0)
            (io (say (IterationStart (iteration + 1) (current_page r0)) r0))
            = Some (Inr links, c, s) \<and>
          links \<noteq> [] \<and>
          choose_next_link env (current_page r0) target_page (visited r0) links s = (Inl e, s'))) \<and>
   (explore_path env start_page target_page max_iterations w = Some (Inl e, r3) \<longrightarrow>
      (\<exists>pre i post r4.
          [0..<nat max_iterations] = pre @ i # post \<and>
          continues env target_page pre (initial_run start_page w) = Some r4 \<and>
          loop_body env target_page i r4 = Some (Raise e, r3)))"
proof -
  have len: "length q \<le> nat max_iterations + 1"
    if "explore_path env start_page target_page max_iterations w = Some (Inr q, q0)" for q q0
    using explore_loop_length [OF that [unfolded explore_path_def]]
    by (simp add: initial_run_def)
  have fin: "explore_path env start_page target_page max_iterations w
        = Some (Inr (path r'), say MaxIterations r')"
    if "continues env target_page [0..<nat max_iterations] (initial_run start_page w) = Some r'"
    using continues_explore_loop [OF that] by (simp add: explore_path_def)
  from len [of p r] have 1: "explore_path env start_page target_page max_iterations w = Some (Inr p, r) \<longrightarrow>
      length p \<le> nat max_iterations + 1" by blast
  from len [of p r] have 2: "0 \<le> max_iterations \<and>
    explore_path env start_page target_page max_iterations w = Some (Inr p, r) \<longrightarrow>
      int (length p) \<le> max_iterations + 1" by auto
  from fin len [of "path r'" "say MaxIterations r'"]
  have 3: "continues env target_page [0..<nat max_iterations] (initial_run start_page w) = Some r' \<longrightarrow>
      explore_path env start_page target_page max_iterations w
        = Some (Inr (path r'), say MaxIterations r') \<and>
      length (path r') \<le> nat max_iterations + 1" by blast
  note 4 = loop_body_continue [of env r0 target_page iteration links c s]
  note 5 = loop_body_raise [of env target_page iteration r0 e r2]
  note 6 = explore_loop_raise [of env target_page "[0..<nat max_iterations]"
      "initial_run start_page w" e r3, folded explore_path_def]
  from 1 2 3 4 5 6 show ?thesis by blast
qed

text \<open>
  A run of two iterations that never reaches its target; its first iteration; and a run
  whose second fetch is answered with status 500.
\<close>

theorem path_length_is_bounded_witness:
  "(\<exists>r'. continues script_env ''Basil'' [0..<nat 2]
            (initial_run ''Pizza'' ([page [''Cheese''], page [''Tomato'']], [Text ''Cheese'', Text ''Tomato'']))
          = Some r' \<and>
        explore_path script_env ''Pizza'' ''Basil'' 2
            ([page [''Cheese''], page [''Tomato'']], [Text ''Cheese'', Text ''Tomato''])
          = Some (Inr [''Pizza'', ''Cheese'', ''Tomato''], say MaxIterations r') \<and>
        path r' = [''Pizza'', ''Cheese'', ''Tomato''] \<and>
        int (length [''Pizza'', ''Cheese'', ''Tomato'']) \<le> 2 + 1) \<and>
   (\<exists>r1. loop_body script_env ''Basil'' 0
            (initial_run ''Pizza'' ([page [''Cheese''], page [''Tomato'']], [Text ''Cheese'', Text ''Tomato'']))
          = Some (Continue, r1)) \<and>
   (\<exists>r3 pre i post r4.
        explore_path script_env ''Pizza'' ''Basil'' 2
            ([page [''Cheese''], Response 500 None], [Text ''Cheese''])
          = Some (Inl (HTTPStatusError 500), r3) \<and>
        [0..<nat 2] = pre @ i # post \<and>
        continues script_env ''Basil'' pre
            (initial_run ''Pizza'' ([page [''Cheese''], Response 500 None], [Text ''Cheese'']))
          = Some r4 \<and>
        loop_body script_env ''Basil'' i r4 = Some (Raise (HTTPStatusError 500), r3) \<and>
        ((\<exists>c s. get_links_from_page script_env (current_page r4) (cache r4)
                   (io (say (IterationStart (i + 1) (current_page r4)) r4))
                 = Some (Inl (HTTPStatusError 500), c, s)) \<or>
         (\<exists>links c s s'.
             get_links_from_page script_env (current_page r4) (cache r4)
               (io (say (IterationStart (i + 1) (current_page r4)) r4))
               = Some (Inr links, c, s) \<and>
             links \<noteq> [] \<and>
             choose_next_link script_env (current_page r4) ''Basil'' (visited r4) links s
               = (Inl (HTTPStatusError 500), s'))))"
proof -
  let ?w = "([page [''Cheese''], page [''Tomato'']], [Text ''Cheese'', Text ''Tomato''])"
  let ?v = "([page [''Cheese''], Response 500 None], [Text ''Cheese''])"
  let ?r = "initial_run ''Pizza'' ?w"
  let ?p = "build_prompt ''Pizza'' ''Basil'' [''Pizza''] [''Cheese'']"
  let ?s = "\<lparr>world = ([page [''Tomato'']], [Text ''Cheese'', Text ''Tomato'']),
             trace = [Print (IterationStart 1 ''Pizza''), HttpGet (initial_params ''Pizza'')]\<rparr>"
  have "map_option path (continues script_env ''Basil'' [0..<nat 2] ?r)
        = Some [''Pizza'', ''Cheese'', ''Tomato'']"
    by code_simp
  then obtain r' where
    c: "continues script_env ''Basil'' [0..<nat 2] ?r = Some r'" and
    p: "path r' = [''Pizza'', ''Cheese'', ''Tomato'']"
    by auto
  note T = path_length_is_bounded [where env = script_env and start_page = "''Pizza''"
      and target_page = "''Basil''" and max_iterations = 2]
  from T [where w = ?w and r' = r' and p = "path r'" and r = "say MaxIterations r'"] c
  have e: "explore_path script_env ''Pizza'' ''Basil'' 2 ?w
        = Some (Inr (path r'), say MaxIterations r')" by blast
  with T [where w = ?w and r' = r' and p = "path r'" and r = "say MaxIterations r'"]
  have "int (length (path r')) \<le> 2 + 1" by simp
  with c e p have 1: "\<exists>r'. continues script_env ''Basil'' [0..<nat 2] ?r = Some r' \<and>
        explore_path script_env ''Pizza'' ''Basil'' 2 ?w
          = Some (Inr [''Pizza'', ''Cheese'', ''Tomato''], say MaxIterations r') \<and>
        path r' = [''Pizza'', ''Cheese'', ''Tomato''] \<and>
        int (length [''Pizza'', ''Cheese'', ''Tomato'']) \<le> 2 + 1"
    by auto
  have h: "normalize script_env (current_page ?r) \<noteq> normalize script_env ''Basil''"
    by (simp add: run_simps script_env_def)
  have g: "get_links_from_page script_env (current_page ?r) (cache ?r)
             (io (say (IterationStart (0 + 1) (current_page ?r)) ?r))
           = Some (Inr [''Cheese''], [''Pizza'' \<mapsto> [''Cheese'']], ?s)"
    by (simp add: eval_simps initial_run_def say_def)
  have ch: "choose_next_link script_env (current_page ?r) ''Basil'' (visited ?r) [''Cheese''] ?s
           = (Inr ''Cheese'',
              \<lparr>world = ([page [''Tomato'']], [Text ''Tomato'']),
               trace = [Print (IterationStart 1 ''Pizza''), HttpGet (initial_params ''Pizza''),
                        Print (PromptingGemini ?p), GeminiCall ?p, TimeSleep 2,
                        Print (GeminiResponse ''Cheese'')]\<rparr>)"
    by (simp add: choose_next_link_def generate_response_def script_env_def emit_def Let_def
        ascii_strip_def ascii_space_def initial_run_def)
  from T [where ?r0.0 = ?r and iteration = 0 and links = "[''Cheese'']"
      and c = "[''Pizza'' \<mapsto> [''Cheese'']]" and s = ?s] h g ch
  have 2: "\<exists>r1. loop_body script_env ''Basil'' 0 ?r = Some (Continue, r1)" by blast
  have "map_option fst (explore_path script_env ''Pizza'' ''Basil'' 2 ?v)
        = Some (Inl (HTTPStatusError 500))"
    by code_simp
  then obtain r3 where
    x: "explore_path script_env ''Pizza'' ''Basil'' 2 ?v = Some (Inl (HTTPStatusError 500), r3)"
    by auto
  from T [where w = ?v and e = "HTTPStatusError 500" and ?r3.0 = r3] x
  obtain pre i post r4 where
    a: "[0..<nat 2] = pre @ i # post"
      "continues script_env ''Basil'' pre (initial_run ''Pizza'' ?v) = Some r4"
      "loop_body script_env ''Basil'' i r4 = Some (Raise (HTTPStatusError 500), r3)"
    by blast
  from T [where ?r0.0 = r4 and iteration = i and e = "HTTPStatusError 500" and ?r2.0 = r3] a(3)
  have "(\<exists>c s. get_links_from_page script_env (current_page r4) (cache r4)
                   (io (say (IterationStart (i + 1) (current_page r4)) r4))
                 = Some (Inl (HTTPStatusError 500), c, s)) \<or>
         (\<exists>links c s s'.
             get_links_from_page script_env (current_page r4) (cache r4)
               (io (say (IterationStart (i + 1) (current_page r4)) r4))
               = Some (Inr links, c, s) \<and>
             links \<noteq> [] \<and>
             choose_next_link script_env (current_page r4) ''Basil'' (visited r4) links s
               = (Inl (HTTPStatusError 500), s'))"
    by blast
  with x a have 3: "\<exists>r3 pre i post r4.
        explore_path script_env ''Pizza'' ''Basil'' 2 ?v = Some (Inl (HTTPStatusError 500), r3) \<and>
        [0..<nat 2] = pre @ i # post \<and>
        continues script_env ''Basil'' pre (initial_run ''Pizza'' ?v) = Some r4 \<and>
        loop_body script_env ''Basil'' i r4 = Some (Raise (HTTPStatusError 500), r3) \<and>
        ((\<exists>c s. get_links_from_page script_env (current_page r4) (cache r4)
                   (io (say (IterationStart (i + 1) (current_page r4)) r4))
                 = Some (Inl (HTTPStatusError 500), c, s)) \<or>
         (\<exists>links c s s'.
             get_links_from_page script_env (current_page r4) (cache r4)
               (io (say (IterationStart (i + 1) (current_page r4)) r4))
               = Some (Inr links, c, s) \<and>
             links \<noteq> [] \<and>
             choose_next_link script_env (current_page r4) ''Basil'' (visited r4) links s
               = (Inl (HTTPStatusError 500), s')))"
    by blast
  from 1 2 3 show ?thesis by blast
qed

text \<open>
  C6 as it was stated fails for a negative \<^verbatim>\<open>max_iterations\<close>: the range is empty, the
  path holds the start page, and its length 1 exceeds \<open>max_iterations + 1\<close>. And a run
  whose target is out of reach does raise when a fetch fails: here the server answers 500.
\<close>

theorem negative_budget_returns_the_start_page:
  "explore_path script_env ''Pizza'' ''Tomato'' (- 1) ([], []) =
     Some (Inr [''Pizza''],
           \<lparr>io = \<lparr>world = ([], []), trace = [Print MaxIterations]\<rparr>, cache = Map.empty,
            visited = [''Pizza''], current_page = ''Pizza'', path = [''Pizza'']\<rparr>) \<and>
   \<not> int (length [''Pizza'']) \<le> - 1 + 1 \<and>
   explore_path script_env ''Pizza'' ''Tomato'' 3 ([Response 500 None], []) =
     Some (Inl (HTTPStatusError 500),
           \<lparr>io = \<lparr>world = ([], []),
                  trace = [Print (IterationStart 1 ''Pizza''), HttpGet (initial_params ''Pizza'')]\<rparr>,
            cache = Map.empty, visited = [''Pizza''], current_page = ''Pizza'',
            path = [''Pizza'']\<rparr>)"
  by (simp add: run_simps eval_simps upt_conv_Cons)

text \<open>
  C7. When the cache already holds links for a node, \<^verbatim>\<open>get_links_from_page\<close> returns exactly
  those links and leaves the cache, the world and the trace as they were: no request is
  sent. Whatever page is fetched next, and however the loop of \<^verbatim>\<open>explore_path\<close> runs on,
  the cached links of the node stay what they are. A fetch that succeeds stores the links
  it returns under the page, and changes no other entry, so that any later call for the
  same page returns the same links without a request; a fetch that fails leaves the cache
  as it was. An iteration of the loop whose current page is in the cache sends no request
  and leaves the cache as it is.
\<close>

theorem cached_links_are_returned_and_kept:
  "(c n = Some links \<longrightarrow> get_links_from_page env n c s = Some (Inr links, c, s)) \<and>
   (c n = Some links \<and> get_links_from_page env t c s = Some (res, c', s') \<longrightarrow> c' n = Some links) \<and>
   (cache r n = Some links \<and> explore_loop env target_page its r = Some (out, r') \<longrightarrow>
      cache r' n = Some links) \<and>
   (get_links_from_page env m c0 s0 = Some (Inr fetched, c1, s1) \<longrightarrow>
      c1 = c0(m \<mapsto> fetched) \<and>
      get_links_from_page env m c1 s2 = Some (Inr fetched, c1, s2)) \<and>
   (get_links_from_page env m c0 s0 = Some (Inl e, c1, s1) \<longrightarrow> c1 = c0) \<and>
   (cache r (current_page r) = Some links \<and>
    loop_body env target_page iteration r = Some (st, r2) \<longrightarrow>
      cache r2 = cache r \<and>
      filter is_request (trace (io r2)) = filter is_request (trace (io r)))"
proof (intro conjI impI)
  assume "c n = Some links"
  then show "get_links_from_page env n c s = Some (Inr links, c, s)" by (rule get_links_cached)
next
  assume "c n = Some links \<and> get_links_from_page env t c s = Some (res, c', s')"
  then show "c' n = Some links" using get_links_keeps by blast
next
  assume "cache r n = Some links \<and> explore_loop env target_page its r = Some (out, r')"
  then show "cache r' n = Some links" using explore_loop_keeps_cache by blast
next
  assume a: "get_links_from_page env m c0 s0 = Some (Inr fetched, c1, s1)"
  from get_links_result_cache [OF a] show u: "c1 = c0(m \<mapsto> fetched)" .
  from u have "c1 m = Some fetched" by simp
  then show "get_links_from_page env m c1 s2 = Some (Inr fetched, c1, s2)"
    by (rule get_links_cached)
next
  assume "get_links_from_page env m c0 s0 = Some (Inl e, c1, s1)"
  then show "c1 = c0" by (rule get_links_error_cache)
next
  assume a: "cache r (current_page r) = Some links \<and>
    loop_body env target_page iteration r = Some (st, r2)"
  with loop_body_cached_no_request [of r links env target_page iteration st r2]
  show "cache r2 = cache r"
    and "filter is_request (trace (io r2)) = filter is_request (trace (io r))"
    by simp_all
qed

text \<open>
  Starting from a cache that holds \<open>Pizza\<close>: a hit on \<open>Pizza\<close>; a first fetch of
  \<open>Cheese\<close>, which stores its links, and a second call for \<open>Cheese\<close>, which leaves the
  page the server has ready unread; a fetch that fails; two iterations of the loop; and one
  iteration on the cached page.
\<close>

theorem cached_links_are_returned_and_kept_witness:
  "get_links_from_page script_env ''Pizza'' [''Pizza'' \<mapsto> [''Cheese'']]
       \<lparr>world = ([page [''Tomato'']], []), trace = []\<rparr>
     = Some (Inr [''Cheese''], [''Pizza'' \<mapsto> [''Cheese'']],
             \<lparr>world = ([page [''Tomato'']], []), trace = []\<rparr>) \<and>
   get_links_from_page script_env ''Cheese'' [''Pizza'' \<mapsto> [''Cheese'']]
       \<lparr>world = ([page [''Tomato'']], []), trace = []\<rparr>
     = Some (Inr [''Tomato''], [''Pizza'' \<mapsto> [''Cheese''], ''Cheese'' \<mapsto> [''Tomato'']],
             \<lparr>world = ([], []), trace = [HttpGet (initial_params ''Cheese'')]\<rparr>) \<and>
   get_links_from_page script_env ''Cheese''
       [''Pizza'' \<mapsto> [''Cheese''], ''Cheese'' \<mapsto> [''Tomato'']]
       \<lparr>world = ([page [''Basil'']], []), trace = []\<rparr>
     = Some (Inr [''Tomato''], [''Pizza'' \<mapsto> [''Cheese''], ''Cheese'' \<mapsto> [''Tomato'']],
             \<lparr>world = ([page [''Basil'']], []), trace = []\<rparr>) \<and>
   ([''Pizza'' \<mapsto> [''Cheese''], ''Cheese'' \<mapsto> [''Tomato'']]) ''Pizza'' = Some [''Cheese''] \<and>
   get_links_from_page script_env ''Cheese'' [''Pizza'' \<mapsto> [''Cheese'']]
       \<lparr>world = ([Response 500 None], []), trace = []\<rparr>
     = Some (Inl (HTTPStatusError 500), [''Pizza'' \<mapsto> [''Cheese'']],
             \<lparr>world = ([], []), trace = [HttpGet (initial_params ''Cheese'')]\<rparr>) \<and>
   map_option (\<lambda>(out, r'). (out, cache r' ''Pizza''))
     (explore_loop script_env ''Tomato'' [0, 1]
        \<lparr>io = \<lparr>world = ([page [''Tomato'']], [Text ''Cheese'', Text ''Tomato'']), trace = []\<rparr>,
         cache = [''Pizza'' \<mapsto> [''Cheese'']], visited = [''Pizza''],
         current_page = ''Pizza'', path = [''Pizza'']\<rparr>)
     = Some (Inr [''Pizza'', ''Cheese'', ''Tomato''], Some [''Cheese'']) \<and>
   map_option (\<lambda>(st, r2). (st, cache r2 ''Pizza'', filter is_request (trace (io r2))))
     (loop_body script_env ''Tomato'' 0
        \<lparr>io = \<lparr>world = ([page [''Tomato'']], [Text ''Cheese'', Text ''Tomato'']), trace = []\<rparr>,
         cache = [''Pizza'' \<mapsto> [''Cheese'']], visited = [''Pizza''],
         current_page = ''Pizza'', path = [''Pizza'']\<rparr>)
     = Some (Continue, Some [''Cheese''], [])"
proof -
  let ?c = "[''Pizza'' \<mapsto> [''Cheese'']]"
  let ?c1 = "[''Pizza'' \<mapsto> [''Cheese''], ''Cheese'' \<mapsto> [''Tomato'']]"
  let ?s = "\<lparr>world = ([page [''Tomato'']], ([] :: gemini_result list)), trace = []\<rparr>"
  let ?s1 = "\<lparr>world = (([] :: http_result list), ([] :: gemini_result list)),
               trace = [HttpGet (initial_params ''Cheese'')]\<rparr>"
  let ?s2 = "\<lparr>world = ([page [''Basil'']], ([] :: gemini_result list)), trace = []\<rparr>"
  let ?s5 = "\<lparr>world = ([Response 500 None], ([] :: gemini_result list)), trace = []\<rparr>"
  let ?r = "\<lparr>io = \<lparr>world = ([page [''Tomato'']], [Text ''Cheese'', Text ''Tomato'']), trace = []\<rparr>,
         cache = ?c, visited = [''Pizza''], current_page = ''Pizza'', path = [''Pizza'']\<rparr>"
  note T = cached_links_are_returned_and_kept
  have h: "?c ''Pizza'' = Some [''Cheese'']" by simp
  have g: "get_links_from_page script_env ''Cheese'' ?c ?s = Some (Inr [''Tomato''], ?c1, ?s1)"
    by (simp add: eval_simps)
  have f: "get_links_from_page script_env ''Cheese'' ?c ?s5
        = Some (Inl (HTTPStatusError 500), ?c, ?s1)"
    by (simp add: eval_simps)
  have "map_option fst (explore_loop script_env ''Tomato'' [0, 1] ?r)
        = Some (Inr [''Pizza'', ''Cheese'', ''Tomato''])"
    by code_simp
  then obtain r' where
    e: "explore_loop script_env ''Tomato'' [0, 1] ?r = Some (Inr [''Pizza'', ''Cheese'', ''Tomato''], r')"
    by auto
  have "map_option fst (loop_body script_env ''Tomato'' 0 ?r) = Some Continue"
    by code_simp
  then obtain r2 where b: "loop_body script_env ''Tomato'' 0 ?r = Some (Continue, r2)"
    by auto
  have hr: "cache ?r ''Pizza'' = Some [''Cheese'']" by simp
  have hc: "cache ?r (current_page ?r) = Some [''Cheese'']" by simp
  from T [where c = ?c and n = "''Pizza''" and links = "[''Cheese'']" and env = script_env
      and s = ?s] h
  have 1: "get_links_from_page script_env ''Pizza'' ?c ?s = Some (Inr [''Cheese''], ?c, ?s)"
    by blast
  from T [where c = ?c and n = "''Pizza''" and links = "[''Cheese'']" and env = script_env
      and s = ?s and t = "''Cheese''" and res = "Inr [''Tomato'']" and c' = ?c1 and s' = ?s1] h g
  have 2: "?c1 ''Pizza'' = Some [''Cheese'']" by blast
  from T [where r = ?r and n = "''Pizza''" and links = "[''Cheese'']" and env = script_env
      and target_page = "''Tomato''" and its = "[0, 1]" and r' = r'] hr e
  have 3: "cache r' ''Pizza'' = Some [''Cheese'']" by blast
  from T [where env = script_env and m = "''Cheese''" and ?c0.0 = ?c and ?s0.0 = ?s
      and fetched = "[''Tomato'']" and ?c1.0 = ?c1 and ?s1.0 = ?s1 and ?s2.0 = ?s2] g
  have 4: "get_links_from_page script_env ''Cheese'' ?c1 ?s2 = Some (Inr [''Tomato''], ?c1, ?s2)"
    by blast
  from T [where env = script_env and m = "''Cheese''" and ?c0.0 = ?c and ?s0.0 = ?s5
      and e = "HTTPStatusError 500" and ?c1.0 = ?c and ?s1.0 = ?s1] f
  have 5: "?c = ?c" by blast
  from T [where r = ?r and links = "[''Cheese'']" and env = script_env
      and target_page = "''Tomato''" and iteration = 0 and st = Continue and ?r2.0 = r2] hc b
  have 6: "cache r2 = cache ?r"
    "filter is_request (trace (io r2)) = filter is_request (trace (io ?r))"
    by blast+
  from 1 g 2 4 f e 3 b 6 show ?thesis by simp
qed

text \<open>
  C8. In an iteration that fetches the links of the current page and finds none, the body
  of the loop emits the diagnostic of the missing links and nothing else: Gemini is not
  called, and the path, the visited pages and the current page stay as they are. The loop
  goes on with the remaining iterations, one fewer than before.
\<close>

theorem empty_links_stall_the_iteration:
  assumes "normalize env (current_page r) \<noteq> normalize env target_page"
    and "get_links_from_page env (current_page r) (cache r)
           (io (say (IterationStart (iteration + 1) (current_page r)) r)) = Some (Inr [], c, s)"
  shows "loop_body env target_page iteration r =
           Some (Continue, r\<lparr>io := emit [Print (NoLinks (current_page r))] s, cache := c\<rparr>) \<and>
         explore_loop env target_page (iteration # rest) r =
           explore_loop env target_page rest
             (r\<lparr>io := emit [Print (NoLinks (current_page r))] s, cache := c\<rparr>)"
proof -
  from assms
  have "loop_body env target_page iteration r =
           Some (Continue, r\<lparr>io := emit [Print (NoLinks (current_page r))] s, cache := c\<rparr>)"
    by (simp add: loop_body_def Let_def say_def)
  then show ?thesis by simp
qed

text \<open>The only link of the page is removed by line 80, so none is left.\<close>

theorem empty_links_stall_the_iteration_witness:
  "loop_body script_env ''Tomato'' 0 (initial_run ''Pizza'' ([page [''Help:Contents'']], [Text ''Cheese''])) =
     Some (Continue,
           \<lparr>io = \<lparr>world = ([], [Text ''Cheese'']),
                  trace = [Print (IterationStart 1 ''Pizza''), HttpGet (initial_params ''Pizza''),
                           Print (NoLinks ''Pizza'')]\<rparr>,
            cache = [''Pizza'' \<mapsto> []], visited = [''Pizza''], current_page = ''Pizza'',
            path = [''Pizza'']\<rparr>) \<and>
   explore_loop script_env ''Tomato'' [0, 1]
       (initial_run ''Pizza'' ([page [''Help:Contents'']], [Text ''Cheese''])) =
     explore_loop script_env ''Tomato'' [1]
       \<lparr>io = \<lparr>world = ([], [Text ''Cheese'']),
              trace = [Print (IterationStart 1 ''Pizza''), HttpGet (initial_params ''Pizza''),
                       Print (NoLinks ''Pizza'')]\<rparr>,
        cache = [''Pizza'' \<mapsto> []], visited = [''Pizza''], current_page = ''Pizza'',
        path = [''Pizza'']\<rparr>"
proof -
  let ?r = "initial_run ''Pizza'' ([page [''Help:Contents'']], [Text ''Cheese''])"
  have h: "normalize script_env (current_page ?r) \<noteq> normalize script_env ''Tomato''"
    by (simp add: run_simps script_env_def)
  have g: "get_links_from_page script_env (current_page ?r) (cache ?r)
             (io (say (IterationStart (0 + 1) (current_page ?r)) ?r))
           = Some (Inr [], [''Pizza'' \<mapsto> []],
               \<lparr>world = ([], [Text ''Cheese'']),
                trace = [Print (IterationStart 1 ''Pizza''), HttpGet (initial_params ''Pizza'')]\<rparr>)"
    by (simp add: eval_simps initial_run_def say_def)
  from empty_links_stall_the_iteration [OF h g, of "[1]"] show ?thesis
    by (simp add: initial_run_def emit_def)
qed

text \<open>
  C9. Once an iteration finds no links for a current page that is not the target, the
  empty list is in the cache and the run never moves again: each remaining iteration emits
  its two diagnostics and nothing else (no request, no call to Gemini), and
  \<^verbatim>\<open>explore_path\<close> returns the path as it was at the first stall, after the diagnostic of
  the exhausted budget.
\<close>

theorem stalled_run_never_moves_again:
  assumes "normalize env (current_page r) \<noteq> normalize env target_page"
    and "get_links_from_page env (current_page r) (cache r)
           (io (say (IterationStart (iteration + 1) (current_page r)) r)) = Some (Inr [], c, s)"
  shows "c (current_page r) = Some [] \<and>
         explore_loop env target_page (iteration # rest) r =
           Some (Inr (path r),
                 r\<lparr>io := emit (Print (NoLinks (current_page r)) #
                                concat (map (\<lambda>i. [Print (IterationStart (i + 1) (current_page r)),
                                                  Print (NoLinks (current_page r))]) rest)
                                @ [Print MaxIterations]) s,
                   cache := c\<rparr>)"
proof -
  let ?r1 = "r\<lparr>io := emit [Print (NoLinks (current_page r))] s, cache := c\<rparr>"
  from get_links_stores [OF assms(2)] have c: "c (current_page r) = Some []" .
  from assms
  have "loop_body env target_page iteration r = Some (Continue, ?r1)"
    by (simp add: loop_body_def Let_def say_def)
  then have "explore_loop env target_page (iteration # rest) r = explore_loop env target_page rest ?r1"
    by simp
  also from assms(1) c have "\<dots> = Some (Inr (path ?r1),
      ?r1\<lparr>io := emit (concat (map (\<lambda>i. [Print (IterationStart (i + 1) (current_page ?r1)),
                                        Print (NoLinks (current_page ?r1))]) rest)
                       @ [Print MaxIterations]) (io ?r1)\<rparr>)"
    by (intro stalled_loop) simp_all
  finally show ?thesis using c by simp
qed

text \<open>A run that moved from \<open>Pizza\<close> to \<open>Cheese\<close> and finds no link there, with two iterations left.\<close>

theorem stalled_run_never_moves_again_witness:
  "explore_loop script_env ''Tomato'' [1, 2, 3]
       \<lparr>io = \<lparr>world = ([page []], [Text ''Basil'']), trace = []\<rparr>,
        cache = [''Pizza'' \<mapsto> [''Cheese'']], visited = [''Pizza'', ''Cheese''],
        current_page = ''Cheese'', path = [''Pizza'', ''Cheese'']\<rparr> =
     Some (Inr [''Pizza'', ''Cheese''],
           \<lparr>io = \<lparr>world = ([], [Text ''Basil'']),
                  trace = [Print (IterationStart 2 ''Cheese''), HttpGet (initial_params ''Cheese''),
                           Print (NoLinks ''Cheese''),
                           Print (IterationStart 3 ''Cheese''), Print (NoLinks ''Cheese''),
                           Print (IterationStart 4 ''Cheese''), Print (NoLinks ''Cheese''),
                           Print MaxIterations]\<rparr>,
            cache = [''Pizza'' \<mapsto> [''Cheese''], ''Cheese'' \<mapsto> []],
            visited = [''Pizza'', ''Cheese''], current_page = ''Cheese'',
            path = [''Pizza'', ''Cheese'']\<rparr>)"
proof -
  let ?r = "\<lparr>io = \<lparr>world = ([page []], [Text ''Basil'']), trace = []\<rparr>,
        cache = [''Pizza'' \<mapsto> [''Cheese'']], visited = [''Pizza'', ''Cheese''],
        current_page = ''Cheese'', path = [''Pizza'', ''Cheese'']\<rparr>"
  have h: "normalize script_env (current_page ?r) \<noteq> normalize script_env ''Tomato''"
    by (simp add: run_simps script_env_def)
  have g: "get_links_from_page script_env (current_page ?r) (cache ?r)
             (io (say (IterationStart (1 + 1) (current_page ?r)) ?r))
           = Some (Inr [], [''Pizza'' \<mapsto> [''Cheese''], ''Cheese'' \<mapsto> []],
               \<lparr>world = ([], [Text ''Basil'']),
                trace = [Print (IterationStart 2 ''Cheese''), HttpGet (initial_params ''Cheese'')]\<rparr>)"
    by (simp add: eval_simps say_def)
  from stalled_run_never_moves_again [OF h g, of "[2, 3]"] show ?thesis
    by (simp add: emit_def)
qed

end
